theory Spec2Isabelle
  imports Complex_Main "HOL-Library.Multiset"
begin

section \<open>Values shared by the modules\<close>

text \<open>
  Amounts are Python floats in the source. The embedding reads them as real numbers:
  sums and comparisons are exact, rounding is not modelled.

  A date is a \<open>datetime\<close> object, a string still to be parsed, or \<open>None\<close>.
  \<open>datetime.strptime\<close> belongs to the Python library, not to this package; it is a
  parameter \<open>strptime\<close> of every function that reaches it, with \<open>None\<close> standing
  for the \<open>ValueError\<close> it raises on a string that does not match the format.
\<close>

datatype datetime = Datetime (year: nat) (month: nat) (day: nat)

datatype date_value = DateStr string | DateTime datetime | DateNone

datatype error = ValueError | KeyError | AttributeError

text \<open>
  A user id is a cell of a pandas column: an integer, or the float NaN that pandas puts
  where a value is missing (\<open>pd.concat\<close> fills the columns a file lacks with it).
  \<open>==\<close> on a NaN is false, also against itself; a dictionary looks a key up by
  identity before it compares with \<open>==\<close>, so it finds a NaN key only through the same
  object. The number in \<open>NaNId\<close> tells the NaN objects apart (every row yields a new
  one), so that equality of \<open>ident\<close> values is what a dictionary tests and
  \<open>py_eq\<close> is what \<open>==\<close> tests. The other integer columns are read as integers.
\<close>

datatype ident = IntId int | NaNId nat

fun py_eq :: "ident \<Rightarrow> ident \<Rightarrow> bool" where
  "py_eq (IntId i) (IntId j) = (i = j)"
| "py_eq a b = False"

datatype warning =
    NoValidDate
  | UnableToAdd int ident ident
  | DuplicateTransaction int

type_synonym strptime_fn = "string \<Rightarrow> string \<Rightarrow> datetime option"

text \<open>Truth value of a date field in a Python condition.\<close>

fun truthy :: "date_value \<Rightarrow> bool" where
  "truthy (DateStr s) = (s \<noteq> [])"
| "truthy (DateTime d) = True"
| "truthy DateNone = False"

subsection \<open>Python string methods used by the package\<close>

text \<open>
  \<open>str.isspace\<close> on the code points below 256; \<open>str.strip()\<close>, \<open>str.split()\<close>
  without separator and \<open>sep.join(words)\<close>.
\<close>

definition isspace :: "char \<Rightarrow> bool" where
  "isspace c = (of_char c \<in> {9, 10, 11, 12, 13, 28, 29, 30, 31, 32, 133, 160 :: nat})"

definition str_strip :: "string \<Rightarrow> string" where
  "str_strip s = rev (dropWhile isspace (rev (dropWhile isspace s)))"

fun split_acc :: "string \<Rightarrow> string \<Rightarrow> string list" where
  "split_acc [] w = (if w = [] then [] else [w])"
| "split_acc (c # cs) w =
     (if isspace c then (if w = [] then split_acc cs [] else w # split_acc cs [])
      else split_acc cs (w @ [c]))"

definition str_split :: "string \<Rightarrow> string list" where
  "str_split s = split_acc s []"

fun str_join :: "string \<Rightarrow> string list \<Rightarrow> string" where
  "str_join sep [] = []"
| "str_join sep [w] = w"
| "str_join sep (w # ws) = w @ sep @ str_join sep ws"

subsection \<open>Python dictionaries\<close>

text \<open>
  A \<open>dict\<close> keeps its keys in insertion order; \<open>d[k] = v\<close> replaces the value of a
  key already present where it stands and appends a new key at the end.
\<close>

fun dict_set :: "'k \<Rightarrow> 'v \<Rightarrow> ('k \<times> 'v) list \<Rightarrow> ('k \<times> 'v) list" where
  "dict_set k v [] = [(k, v)]"
| "dict_set k v ((k', v') # kvs) =
     (if k' = k then (k, v) # kvs else (k', v') # dict_set k v kvs)"

definition dict_keys :: "('k \<times> 'v) list \<Rightarrow> 'k list" where
  "dict_keys kvs = map fst kvs"

definition dict_values :: "('k \<times> 'v) list \<Rightarrow> 'v list" where
  "dict_values kvs = map snd kvs"

subsection \<open>utils.py\<close>

definition string_to_datetime :: "strptime_fn \<Rightarrow> string \<Rightarrow> string \<Rightarrow> error + date_value" where
  "string_to_datetime strptime date_str format =
     (if date_str \<noteq> [] then
        (case strptime date_str format of
           None \<Rightarrow> Inl ValueError
         | Some d \<Rightarrow> Inr (DateTime d))
      else Inr DateNone)"

section \<open>types.py\<close>

record Name =
  name_first :: string
  name_last :: string
  name_full :: string

record Range =
  lower :: int
  upper :: int

record Address =
  addr_street1 :: string
  addr_street2 :: string
  addr_city :: string
  addr_state :: string
  addr_postal :: "int option"

datatype DonorLevel =
    DONORLEVEL_ZERO
  | DONORLEVEL_ONE
  | DONORLEVEL_TWO
  | DONORLEVEL_THREE
  | DONORLEVEL_FOUR
  | DONORLEVEL_FIVE
  | DONORLEVEL_SIX
  | DONORLEVEL_SEVEN
  | DONORLEVEL_EIGHT
  | DONORLEVEL_NINE
  | DONORLEVEL_TEN

fun level_value :: "DonorLevel \<Rightarrow> Range" where
  "level_value DONORLEVEL_ZERO = \<lparr>lower = 0, upper = 500\<rparr>"
| "level_value DONORLEVEL_ONE = \<lparr>lower = 500, upper = 1000\<rparr>"
| "level_value DONORLEVEL_TWO = \<lparr>lower = 1000, upper = 2500\<rparr>"
| "level_value DONORLEVEL_THREE = \<lparr>lower = 2500, upper = 5000\<rparr>"
| "level_value DONORLEVEL_FOUR = \<lparr>lower = 5000, upper = 7500\<rparr>"
| "level_value DONORLEVEL_FIVE = \<lparr>lower = 7500, upper = 10000\<rparr>"
| "level_value DONORLEVEL_SIX = \<lparr>lower = 10000, upper = 25000\<rparr>"
| "level_value DONORLEVEL_SEVEN = \<lparr>lower = 25000, upper = 50000\<rparr>"
| "level_value DONORLEVEL_EIGHT = \<lparr>lower = 50000, upper = 75000\<rparr>"
| "level_value DONORLEVEL_NINE = \<lparr>lower = 75000, upper = 100000\<rparr>"
| "level_value DONORLEVEL_TEN = \<lparr>lower = 100000, upper = 250000\<rparr>"

text \<open>Iterating over the enumeration yields its members in definition order.\<close>

definition DonorLevel_members :: "DonorLevel list" where
  "DonorLevel_members =
     [DONORLEVEL_ZERO, DONORLEVEL_ONE, DONORLEVEL_TWO, DONORLEVEL_THREE,
      DONORLEVEL_FOUR, DONORLEVEL_FIVE, DONORLEVEL_SIX, DONORLEVEL_SEVEN,
      DONORLEVEL_EIGHT, DONORLEVEL_NINE, DONORLEVEL_TEN]"

record Payment =
  transaction_id :: int
  user_id :: ident
  contribution_type :: string
  actual_date :: date_value
  posted_date :: date_value
  firstname :: string
  lastname :: string
  fullname :: string
  email :: string
  payment_type :: string
  response_meta :: string
  amount :: real
  gl_code :: int
  street1 :: string
  street2 :: string
  city :: string
  state :: string
  postal :: "int option"

text \<open>
  \<open>Payment.__post_init__\<close>: the dataclass has stored the constructor's arguments in
  the fields; the method parses string dates, warns, and fills an absent date from the
  other one. The result is the object and the warnings issued, or the error raised.
\<close>

definition convert_date :: "strptime_fn \<Rightarrow> date_value \<Rightarrow> error + date_value" where
  "convert_date strptime d =
     (case d of
        DateStr s \<Rightarrow> string_to_datetime strptime s ''%Y-%m-%d''
      | _ \<Rightarrow> Inr d)"

definition post_init :: "strptime_fn \<Rightarrow> Payment \<Rightarrow> error + Payment \<times> warning list" where
  "post_init strptime self =
     (case convert_date strptime (actual_date self) of
        Inl e \<Rightarrow> Inl e
      | Inr a \<Rightarrow>
          (let self1 = self\<lparr>actual_date := a\<rparr> in
           case convert_date strptime (posted_date self1) of
             Inl e \<Rightarrow> Inl e
           | Inr p \<Rightarrow>
               (let self2 = self1\<lparr>posted_date := p\<rparr>;
                    ws = (if \<not> truthy (actual_date self2) \<and> truthy (posted_date self2)
                          then [NoValidDate] else []);
                    actual = (if truthy (actual_date self2) then actual_date self2
                              else posted_date self2);
                    posted = (if truthy (posted_date self2) then posted_date self2
                              else actual_date self2)
                in Inr (self2\<lparr>actual_date := actual, posted_date := posted\<rparr>, ws))))"

section \<open>donor.py\<close>

record Donor =
  d_id :: ident
  d_name :: Name
  d_email :: string
  d_address :: Address
  d_membership_exp :: "datetime option"
  d_payments :: "(int \<times> Payment) list"
  d_donor_level :: "DonorLevel option"
  d_contributions :: "(string \<times> real) list"

definition strip_opt :: "string option \<Rightarrow> error + string" where
  "strip_opt s = (case s of None \<Rightarrow> Inl AttributeError | Some t \<Rightarrow> Inr (str_strip t))"

definition parse_membership :: "strptime_fn \<Rightarrow> date_value \<Rightarrow> error + datetime option" where
  "parse_membership strptime membership_exp =
     (if truthy membership_exp then
        (case membership_exp of
           DateStr s \<Rightarrow>
             (case strptime s ''%Y-%m-%d'' of
                None \<Rightarrow> Inl ValueError
              | Some d \<Rightarrow> Inr (Some d))
         | DateTime d \<Rightarrow> Inr (Some d)
         | DateNone \<Rightarrow> Inr None)
      else Inr None)"

definition Donor_init ::
  "strptime_fn \<Rightarrow> ident \<Rightarrow> string \<Rightarrow> string \<Rightarrow> string option \<Rightarrow> string option \<Rightarrow>
   string option \<Rightarrow> string option \<Rightarrow> string option \<Rightarrow> string option \<Rightarrow> int option \<Rightarrow>
   date_value \<Rightarrow> error + Donor" where
  "Donor_init strptime uid first_name last_name full_name mail str1 str2 cty st post
     membership_exp =
     (let full = (case full_name of
                    None \<Rightarrow> str_join '' '' [str_strip first_name, str_strip last_name]
                  | Some f \<Rightarrow>
                      (if f \<noteq> [] then str_join '' '' (str_split f)
                       else str_join '' '' [str_strip first_name, str_strip last_name]));
          nm = \<lparr>name_first = str_strip first_name, name_last = str_strip last_name,
                name_full = full\<rparr>
      in case strip_opt mail of Inl e \<Rightarrow> Inl e | Inr mail' \<Rightarrow>
        (case strip_opt str1 of Inl e \<Rightarrow> Inl e | Inr str1' \<Rightarrow>
        (case strip_opt str2 of Inl e \<Rightarrow> Inl e | Inr str2' \<Rightarrow>
        (case strip_opt cty of Inl e \<Rightarrow> Inl e | Inr cty' \<Rightarrow>
        (case strip_opt st of Inl e \<Rightarrow> Inl e | Inr st' \<Rightarrow>
        (case parse_membership strptime membership_exp of Inl e \<Rightarrow> Inl e | Inr mexp \<Rightarrow>
           Inr \<lparr>d_id = uid, d_name = nm, d_email = mail',
                d_address = \<lparr>addr_street1 = str1', addr_street2 = str2', addr_city = cty',
                             addr_state = st', addr_postal = post\<rparr>,
                d_membership_exp = mexp,
                d_payments = [],
                d_donor_level = None,
                d_contributions =
                  [(''Payment'', 0), (''Donation'', 0), (''Refund'', 0)]\<rparr>))))))"

definition num_payments :: "Donor \<Rightarrow> nat" where
  "num_payments self = length (d_payments self)"

text \<open>\<open>sum\<close> starts from 0 and adds the values from left to right.\<close>

definition total_contributions :: "Donor \<Rightarrow> real" where
  "total_contributions self = foldl (+) 0 (dict_values (d_contributions self))"

text \<open>
  The scan of \<open>largest_payment\<close> and \<open>largest_donation\<close>: the two properties have the
  same body and differ in the category they compare with.
\<close>

fun largest_loop :: "string \<Rightarrow> Payment list \<Rightarrow> real \<Rightarrow> Payment option \<Rightarrow> Payment option" where
  "largest_loop ctype [] max_amount max_payment = max_payment"
| "largest_loop ctype (payment # rest) max_amount max_payment =
     (if contribution_type payment = ctype then
        (if amount payment > max_amount
         then largest_loop ctype rest (amount payment) (Some payment)
         else largest_loop ctype rest max_amount max_payment)
      else largest_loop ctype rest max_amount max_payment)"

definition largest_payment :: "Donor \<Rightarrow> Payment option" where
  "largest_payment self = largest_loop ''Payment'' (dict_values (d_payments self)) 0 None"

definition largest_donation :: "Donor \<Rightarrow> Payment option" where
  "largest_donation self = largest_loop ''Donation'' (dict_values (d_payments self)) 0 None"

text \<open>
  \<open>level\<close>: the first member of the enumeration whose upper bound exceeds the absolute
  total; the loop falls through without a level when no member does. The result is kept
  in \<open>_donor_level\<close> and returned from there on later calls.
\<close>

fun level_loop :: "real \<Rightarrow> DonorLevel list \<Rightarrow> DonorLevel option" where
  "level_loop t [] = None"
| "level_loop t (l # ls) =
     (if \<bar>t\<bar> < of_int (upper (level_value l)) then Some l else level_loop t ls)"

definition level :: "Donor \<Rightarrow> DonorLevel option \<times> Donor" where
  "level self =
     (case d_donor_level self of
        None \<Rightarrow>
          (let self' = self\<lparr>d_donor_level :=
                              level_loop (total_contributions self) DonorLevel_members\<rparr>
           in (d_donor_level self', self'))
      | Some l \<Rightarrow> (Some l, self))"

text \<open>
  \<open>add_payment\<close> returns the payment (or \<open>None\<close>) or raises; in either case the
  donor may have been changed and warnings issued, so the three are returned together.
\<close>

definition add_payment ::
  "strptime_fn \<Rightarrow> Donor \<Rightarrow> int \<Rightarrow> ident \<Rightarrow> string \<Rightarrow> date_value \<Rightarrow> date_value \<Rightarrow>
   string \<Rightarrow> string \<Rightarrow> real \<Rightarrow> int \<Rightarrow> (error + Payment option) \<times> Donor \<times> warning list" where
  "add_payment strptime self tid uid ctype actual posted ptype meta amt gl =
     (if py_eq (d_id self) uid then
        (case post_init strptime
                \<lparr>transaction_id = tid, user_id = uid, contribution_type = ctype,
                 actual_date = actual, posted_date = posted,
                 firstname = name_first (d_name self), lastname = name_last (d_name self),
                 fullname = name_full (d_name self), email = d_email self,
                 payment_type = ptype, response_meta = meta, amount = amt, gl_code = gl,
                 street1 = addr_street1 (d_address self),
                 street2 = addr_street2 (d_address self),
                 city = addr_city (d_address self), state = addr_state (d_address self),
                 postal = addr_postal (d_address self)\<rparr> of
           Inl e \<Rightarrow> (Inl e, self, [])
         | Inr (payment, ws) \<Rightarrow>
             (let self1 = self\<lparr>d_payments := dict_set tid payment (d_payments self)\<rparr> in
              case map_of (d_contributions self1) (contribution_type payment) of
                None \<Rightarrow> (Inl KeyError, self1, ws)
              | Some c \<Rightarrow>
                  (Inr (Some payment),
                   self1\<lparr>d_contributions :=
                            dict_set (contribution_type payment) (c + amount payment)
                              (d_contributions self1)\<rparr>,
                   ws)))
      else (Inr None, self, [UnableToAdd tid uid (d_id self)]))"

section \<open>database.py\<close>

text \<open>
  A row of the concatenated data frame, as \<open>itertuples\<close> yields it. Reading the files
  is the loader's work and is not part of the embedding: the constructor below starts
  from the rows.
\<close>

record Row =
  row_user_id :: ident
  row_firstname :: string
  row_lastname :: string
  row_full_name :: "string option"
  row_email :: "string option"
  row_street_1 :: "string option"
  row_street_2 :: "string option"
  row_city :: "string option"
  row_state :: "string option"
  row_postal :: "int option"
  row_membership_expiration_date :: date_value
  row_transaction_id :: int
  row_type :: string
  row_actual_date :: date_value
  row_posted_date :: date_value
  row_payment_type :: string
  row_response_meta :: string
  row_amount :: real
  row_gl_code :: int

record DonorLevelStats =
  st_level :: "DonorLevel option"
  st_n_donors :: nat
  st_n_payments :: nat
  st_total :: real
  st_payments :: "real list"
  st_max :: real
  st_min :: real
  st_mean :: real
  st_std :: real
  st_median :: real

text \<open>
  The Donor objects live in \<open>_donors\<close>, each under its user id; the other fields that
  hold donors (\<open>_top_donor\<close>, \<open>_donors_by_contribution\<close>, \<open>_donors_by_level\<close>) hold
  the same objects, not copies. The embedding keeps \<open>_donors\<close> as the store and lets
  the other fields hold the keys, so that a change to a Donor is seen through every view.
  The fields \<open>_dataframes\<close>, \<open>_df\<close>, \<open>_payments_by_date\<close> and
  \<open>_payments_by_date_list\<close> serve loading and the date queries and are left out.
\<close>

record DonorDatabase =
  db_payments :: "(int \<times> Payment) list"
  db_donors :: "(ident \<times> Donor) list"
  db_top_donor :: "ident option"
  db_total_contributions :: "real option"
  db_donors_by_contribution :: "ident list option"
  db_donors_by_level :: "(DonorLevel option \<times> ident list) list option"
  db_donor_level_stats :: "(DonorLevel option \<times> DonorLevelStats) list option"

text \<open>
  The Donor object stored under a key of \<open>_donors\<close>. Every key that the package puts
  into a view is a key of \<open>_donors\<close>, and keys are never removed, so the lookup finds
  the object (lemma \<open>donor_of_mem\<close>).
\<close>

definition donor_of :: "(ident \<times> Donor) list \<Rightarrow> ident \<Rightarrow> Donor" where
  "donor_of donors k = the (map_of donors k)"

subsection \<open>The constructor\<close>

type_synonym ingest_state =
  "(ident \<times> Donor) list \<times> (int \<times> Payment) list \<times> warning list"

definition ingest_row :: "strptime_fn \<Rightarrow> Row \<Rightarrow> ingest_state \<Rightarrow> error + ingest_state" where
  "ingest_row strptime row s =
     (case s of (donors, payments, ws) \<Rightarrow>
     (case (if row_user_id row \<notin> set (dict_keys donors) then
              (case Donor_init strptime (row_user_id row) (row_firstname row)
                      (row_lastname row) (row_full_name row) (row_email row)
                      (row_street_1 row) (row_street_2 row) (row_city row) (row_state row)
                      (row_postal row) (row_membership_expiration_date row) of
                 Inl e \<Rightarrow> Inl e
               | Inr d \<Rightarrow> Inr (dict_set (row_user_id row) d donors))
            else Inr donors) of
        Inl e \<Rightarrow> Inl e
      | Inr donors1 \<Rightarrow>
          (case map_of donors1 (row_user_id row) of
             None \<Rightarrow> Inl KeyError
           | Some donor \<Rightarrow>
               (case add_payment strptime donor (row_transaction_id row) (row_user_id row)
                       (row_type row) (row_actual_date row) (row_posted_date row)
                       (row_payment_type row) (row_response_meta row) (row_amount row)
                       (row_gl_code row) of
                  (Inl e, donor', ws1) \<Rightarrow> Inl e
                | (Inr None, donor', ws1) \<Rightarrow>
                    Inr (dict_set (row_user_id row) donor' donors1, payments, ws @ ws1)
                | (Inr (Some payment), donor', ws1) \<Rightarrow>
                    Inr (dict_set (row_user_id row) donor' donors1,
                         dict_set (transaction_id payment) payment payments,
                         ws @ ws1 @
                         (if transaction_id payment \<in> set (dict_keys payments)
                          then [DuplicateTransaction (transaction_id payment)] else []))))))"

fun ingest :: "strptime_fn \<Rightarrow> Row list \<Rightarrow> ingest_state \<Rightarrow> error + ingest_state" where
  "ingest strptime [] s = Inr s"
| "ingest strptime (row # rows) s =
     (case ingest_row strptime row s of
        Inl e \<Rightarrow> Inl e
      | Inr s' \<Rightarrow> ingest strptime rows s')"

definition DonorDatabase_init ::
  "strptime_fn \<Rightarrow> Row list \<Rightarrow> error + DonorDatabase \<times> warning list" where
  "DonorDatabase_init strptime rows =
     (case ingest strptime rows ([], [], []) of
        Inl e \<Rightarrow> Inl e
      | Inr (donors, payments, ws) \<Rightarrow>
          Inr (\<lparr>db_payments = payments, db_donors = donors, db_top_donor = None,
                db_total_contributions = None, db_donors_by_contribution = None,
                db_donors_by_level = None, db_donor_level_stats = None\<rparr>, ws))"

subsection \<open>top_donor and total_contributions\<close>

fun top_donor_loop ::
  "(ident \<times> Donor) list \<Rightarrow> real \<Rightarrow> ident option \<Rightarrow> ident option" where
  "top_donor_loop [] max_contribution top_k = top_k"
| "top_donor_loop ((k, donor) # rest) max_contribution top_k =
     (if total_contributions donor > max_contribution
      then top_donor_loop rest (total_contributions donor) (Some k)
      else top_donor_loop rest max_contribution top_k)"

definition top_donor :: "DonorDatabase \<Rightarrow> Donor option \<times> DonorDatabase" where
  "top_donor self =
     (case db_top_donor self of
        None \<Rightarrow>
          (let self' = self\<lparr>db_top_donor := top_donor_loop (db_donors self) 0 None\<rparr>
           in (map_option (donor_of (db_donors self')) (db_top_donor self'), self'))
      | Some k \<Rightarrow> (Some (donor_of (db_donors self) k), self))"

text \<open>
  \<open>DonorDatabase.total_contributions\<close>, under a longer name here because the property of
  \<open>Donor\<close> has the same one.
\<close>

definition database_total_contributions :: "DonorDatabase \<Rightarrow> real \<times> DonorDatabase" where
  "database_total_contributions self =
     (case db_total_contributions self of
        None \<Rightarrow>
          (let t = foldl (\<lambda>acc donor. acc + total_contributions donor) 0
                     (dict_values (db_donors self))
           in (t, self\<lparr>db_total_contributions := Some t\<rparr>))
      | Some t \<Rightarrow> (t, self))"

subsection \<open>Donors ordered by contribution\<close>

text \<open>
  Python's \<open>sorted\<close> is a stable sort; with \<open>reverse=True\<close> it reverses the list,
  sorts it in ascending order and reverses the result, which keeps elements with equal
  keys in their original order. The stable ascending sort is \<open>sort_key\<close>.
\<close>

definition py_sorted :: "('a \<Rightarrow> real) \<Rightarrow> bool \<Rightarrow> 'a list \<Rightarrow> 'a list" where
  "py_sorted key reverse xs =
     (if reverse then rev (sort_key key (rev xs)) else sort_key key xs)"

definition sorted_keys :: "DonorDatabase \<Rightarrow> ident list" where
  "sorted_keys self =
     py_sorted (\<lambda>user_id. total_contributions (donor_of (db_donors self) user_id)) True
       (dict_keys (db_donors self))"

definition create_donors_by_contribution :: "DonorDatabase \<Rightarrow> DonorDatabase" where
  "create_donors_by_contribution self =
     self\<lparr>db_donors_by_contribution := Some (sorted_keys self)\<rparr>"

text \<open>
  The guard \<open>if self._donors_by_contribution is None: self._create_donors_by_contribution()\<close>
  followed by a read of the field.
\<close>

definition donors_by_contribution :: "DonorDatabase \<Rightarrow> ident list \<times> DonorDatabase" where
  "donors_by_contribution self =
     (case db_donors_by_contribution self of
        None \<Rightarrow> (sorted_keys self, create_donors_by_contribution self)
      | Some ks \<Rightarrow> (ks, self))"

fun top_donors_loop :: "int \<Rightarrow> int \<Rightarrow> 'a list \<Rightarrow> 'a list \<Rightarrow> 'a list" where
  "top_donors_loop n idx [] top_donors = top_donors"
| "top_donors_loop n idx (donor # rest) top_donors =
     (if idx > n then top_donors
      else top_donors_loop n (idx + 1) rest (top_donors @ [donor]))"

definition get_top_donors :: "DonorDatabase \<Rightarrow> int \<Rightarrow> Donor list \<times> DonorDatabase" where
  "get_top_donors self n =
     (case donors_by_contribution self of
        (ks, self') \<Rightarrow>
          (map (donor_of (db_donors self')) (top_donors_loop n 0 ks []), self'))"

subsection \<open>Donors grouped by level\<close>

text \<open>
  The loop of \<open>get_donors_by_level\<close> over the donors in ranked order. Reading
  \<open>donor.level\<close> may write the Donor's memo, so the store is threaded through. The
  source reads the property a second time to index the dictionary; that read returns what
  the first one did (lemma \<open>level_again\<close>).
\<close>

fun group_loop ::
  "ident list \<Rightarrow> (ident \<times> Donor) list \<Rightarrow> (DonorLevel option \<times> ident list) list \<Rightarrow>
   (ident \<times> Donor) list \<times> (DonorLevel option \<times> ident list) list" where
  "group_loop [] donors by_level = (donors, by_level)"
| "group_loop (k # ks) donors by_level =
     (case level (donor_of donors k) of
        (lvl, donor') \<Rightarrow>
          group_loop ks (dict_set k donor' donors)
            (case map_of by_level lvl of
               None \<Rightarrow> dict_set lvl [k] by_level
             | Some ds \<Rightarrow> dict_set lvl (ds @ [k]) by_level))"

definition donors_by_level ::
  "DonorDatabase \<Rightarrow> (DonorLevel option \<times> ident list) list \<times> DonorDatabase" where
  "donors_by_level self =
     (case db_donors_by_level self of
        None \<Rightarrow>
          (case donors_by_contribution self of
             (ks, self1) \<Rightarrow>
               (case group_loop ks (db_donors self1) [] of
                  (donors', by_level) \<Rightarrow>
                    (by_level,
                     self1\<lparr>db_donors := donors', db_donors_by_level := Some by_level\<rparr>)))
      | Some by_level \<Rightarrow> (by_level, self))"

datatype by_level_result =
    LevelDict "(DonorLevel option \<times> ident list) list"
  | LevelList "ident list"

definition get_donors_by_level ::
  "DonorDatabase \<Rightarrow> DonorLevel option \<Rightarrow> by_level_result \<times> DonorDatabase" where
  "get_donors_by_level self lvl =
     (case donors_by_level self of
        (by_level, self') \<Rightarrow>
          (case map_of by_level lvl of
             Some ds \<Rightarrow> (LevelList ds, self')
           | None \<Rightarrow> (LevelDict by_level, self')))"

subsection \<open>Statistics per level\<close>

text \<open>
  The numpy reductions on a one-dimensional array. \<open>max\<close> and \<open>min\<close> raise
  \<open>ValueError\<close> on an empty array; the others are reached only after \<open>max\<close> has
  returned. \<open>std\<close> is the population standard deviation.
\<close>

definition np_max :: "real list \<Rightarrow> error + real" where
  "np_max xs = (case xs of [] \<Rightarrow> Inl ValueError | x # r \<Rightarrow> Inr (fold max r x))"

definition np_min :: "real list \<Rightarrow> error + real" where
  "np_min xs = (case xs of [] \<Rightarrow> Inl ValueError | x # r \<Rightarrow> Inr (fold min r x))"

definition np_mean :: "real list \<Rightarrow> real" where
  "np_mean xs = sum_list xs / real (length xs)"

definition np_std :: "real list \<Rightarrow> real" where
  "np_std xs = sqrt (np_mean (map (\<lambda>x. (x - np_mean xs)\<^sup>2) xs))"

definition np_median :: "real list \<Rightarrow> real" where
  "np_median xs =
     (let ys = sort xs; n = length ys
      in if even n then (ys ! (n div 2 - 1) + ys ! (n div 2)) / 2 else ys ! (n div 2))"

fun stats_inner ::
  "(ident \<times> Donor) list \<Rightarrow> ident list \<Rightarrow> nat \<times> real \<times> real list \<Rightarrow>
   nat \<times> real \<times> real list" where
  "stats_inner donors [] acc = acc"
| "stats_inner donors (k # ks) (n_contributions, total_value, payments) =
     (let donor = donor_of donors k
      in stats_inner donors ks
           (n_contributions + num_payments donor,
            total_value + total_contributions donor,
            payments @ map amount (dict_values (d_payments donor))))"

definition level_stats ::
  "(ident \<times> Donor) list \<Rightarrow> DonorLevel option \<Rightarrow> ident list \<Rightarrow> error + DonorLevelStats" where
  "level_stats donors lvl ks =
     (case stats_inner donors ks (0, 0, []) of
        (n_contributions, total_value, payments) \<Rightarrow>
          (case np_max payments of
             Inl e \<Rightarrow> Inl e
           | Inr mx \<Rightarrow>
               (case np_min payments of
                  Inl e \<Rightarrow> Inl e
                | Inr mn \<Rightarrow>
                    Inr \<lparr>st_level = lvl, st_n_donors = length ks,
                         st_n_payments = n_contributions, st_total = total_value,
                         st_payments = payments, st_max = mx, st_min = mn,
                         st_mean = np_mean payments, st_std = np_std payments,
                         st_median = np_median payments\<rparr>)))"

fun stats_loop ::
  "(ident \<times> Donor) list \<Rightarrow> (DonorLevel option \<times> ident list) list \<Rightarrow>
   (DonorLevel option \<times> DonorLevelStats) list \<Rightarrow>
   error + (DonorLevel option \<times> DonorLevelStats) list" where
  "stats_loop donors [] donor_level_stats = Inr donor_level_stats"
| "stats_loop donors ((lvl, ks) # rest) donor_level_stats =
     (case level_stats donors lvl ks of
        Inl e \<Rightarrow> Inl e
      | Inr st \<Rightarrow> stats_loop donors rest (dict_set lvl st donor_level_stats))"

datatype stats_result =
    StatsDict "(DonorLevel option \<times> DonorLevelStats) list"
  | StatsOne DonorLevelStats

text \<open>
  \<open>get_donor_level_stats\<close> calls \<open>self.get_donors_by_level()\<close> without a level and
  iterates over \<open>.items()\<close> of what it gets back; when that is a list (the groups have
  the key \<open>None\<close>), the attribute is missing and \<open>AttributeError\<close> is raised.
\<close>

definition get_donor_level_stats ::
  "DonorDatabase \<Rightarrow> DonorLevel option \<Rightarrow> (error + stats_result) \<times> DonorDatabase" where
  "get_donor_level_stats self lvl =
     (case (case db_donor_level_stats self of
              Some sts \<Rightarrow> (Inr sts, self)
            | None \<Rightarrow>
                (case get_donors_by_level self None of
                   (LevelList ds, self1) \<Rightarrow> (Inl AttributeError, self1)
                 | (LevelDict by_level, self1) \<Rightarrow>
                     (case stats_loop (db_donors self1) by_level [] of
                        Inl e \<Rightarrow> (Inl e, self1)
                      | Inr sts \<Rightarrow> (Inr sts, self1\<lparr>db_donor_level_stats := Some sts\<rparr>)))) of
        (Inl e, self') \<Rightarrow> (Inl e, self')
      | (Inr sts, self') \<Rightarrow>
          (case map_of sts lvl of
             Some st \<Rightarrow> (Inr (StatsOne st), self')
           | None \<Rightarrow> (Inr (StatsDict sts), self')))"

section \<open>Views and invariants used in the statements\<close>

text \<open>
  The state of \<open>_donors\<close> during and after construction: the keys are distinct (it is
  a dictionary), every Donor sits under its own id and has not been asked for its level
  yet, and a Donor whose id equals itself holds a payment.
\<close>

definition donors_inv :: "(ident \<times> Donor) list \<Rightarrow> bool" where
  "donors_inv donors \<longleftrightarrow>
     distinct (dict_keys donors) \<and>
     (\<forall>(k, d) \<in> set donors.
        d_id d = k \<and> d_donor_level d = None \<and> (py_eq k k \<longrightarrow> d_payments d \<noteq> []))"

text \<open>
  The memo of a Donor is sound when it is empty or holds the level of the present total.
\<close>

definition memo_ok :: "Donor \<Rightarrow> bool" where
  "memo_ok d \<longleftrightarrow>
     d_donor_level d = None \<or>
     d_donor_level d = level_loop (total_contributions d) DonorLevel_members"

text \<open>
  The life of a database object: the constructor returns it, and each of the queries of
  the embedding may be called on it any number of times, in any order.
\<close>

inductive reachable :: "strptime_fn \<Rightarrow> Row list \<Rightarrow> DonorDatabase \<Rightarrow> bool"
  for strptime :: strptime_fn and rows :: "Row list" where
  constructed:
    "DonorDatabase_init strptime rows = Inr (self, ws) \<Longrightarrow> reachable strptime rows self"
| after_top_donor:
    "reachable strptime rows self \<Longrightarrow> reachable strptime rows (snd (top_donor self))"
| after_total_contributions:
    "reachable strptime rows self \<Longrightarrow>
       reachable strptime rows (snd (database_total_contributions self))"
| after_get_top_donors:
    "reachable strptime rows self \<Longrightarrow> reachable strptime rows (snd (get_top_donors self n))"
| after_get_donors_by_level:
    "reachable strptime rows self \<Longrightarrow>
       reachable strptime rows (snd (get_donors_by_level self lvl))"
| after_get_donor_level_stats:
    "reachable strptime rows self \<Longrightarrow>
       reachable strptime rows (snd (get_donor_level_stats self lvl))"

text \<open>
  What holds of every such object: the keys of \<open>_donors\<close> are distinct and every memo
  is sound; the ranked view, once built, holds the sorted keys; the groups, once built,
  are non-empty lists of keys of \<open>_donors\<close>.
\<close>

definition views_ok :: "DonorDatabase \<Rightarrow> bool" where
  "views_ok self \<longleftrightarrow>
     distinct (dict_keys (db_donors self)) \<and>
     (\<forall>(k, d) \<in> set (db_donors self). memo_ok d) \<and>
     (\<forall>ks. db_donors_by_contribution self = Some ks \<longrightarrow> ks = sorted_keys self) \<and>
     (\<forall>g. db_donors_by_level self = Some g \<longrightarrow>
        (\<forall>(l, ks) \<in> set g. ks \<noteq> [] \<and> set ks \<subseteq> set (dict_keys (db_donors self))))"

section \<open>Example data\<close>

text \<open>
  A \<open>strptime\<close> that rejects every string (the examples pass no date strings), a donor as
  the constructor builds it, a payment, and rows for three donors: the first with a
  payment of 600, a donation of 200 and a refund of 100, the other two with a payment of
  50 each. Two more lists of rows: one whose donors arrive in ascending order of their
  totals, and one whose second row has a NaN in the place of the user id.
\<close>

definition no_strptime :: strptime_fn where
  "no_strptime date_str format = None"

definition example_donor :: Donor where
  "example_donor =
     \<lparr>d_id = IntId 1,
      d_name = \<lparr>name_first = ''Ann'', name_last = ''Lee'', name_full = ''Ann Lee''\<rparr>,
      d_email = [],
      d_address = \<lparr>addr_street1 = [], addr_street2 = [], addr_city = [], addr_state = [],
                   addr_postal = None\<rparr>,
      d_membership_exp = None, d_payments = [], d_donor_level = None,
      d_contributions = [(''Payment'', 0), (''Donation'', 0), (''Refund'', 0)]\<rparr>"

definition example_payment :: "date_value \<Rightarrow> date_value \<Rightarrow> Payment" where
  "example_payment actual posted =
     \<lparr>transaction_id = 10, user_id = IntId 1, contribution_type = ''Payment'',
      actual_date = actual, posted_date = posted, firstname = ''Ann'', lastname = ''Lee'',
      fullname = ''Ann Lee'', email = [], payment_type = [], response_meta = [],
      amount = 25, gl_code = 0, street1 = [], street2 = [], city = [], state = [],
      postal = None\<rparr>"

definition example_row :: "ident \<Rightarrow> int \<Rightarrow> string \<Rightarrow> real \<Rightarrow> Row" where
  "example_row uid tid ctype amt =
     \<lparr>row_user_id = uid, row_firstname = ''Ann '', row_lastname = '' Lee'',
      row_full_name = None, row_email = Some [], row_street_1 = Some [],
      row_street_2 = Some [], row_city = Some [], row_state = Some [],
      row_postal = None, row_membership_expiration_date = DateNone,
      row_transaction_id = tid, row_type = ctype, row_actual_date = DateNone,
      row_posted_date = DateNone, row_payment_type = [], row_response_meta = [],
      row_amount = amt, row_gl_code = 0\<rparr>"

definition example_rows :: "Row list" where
  "example_rows =
     [example_row (IntId 1) 10 ''Payment'' 600, example_row (IntId 1) 11 ''Donation'' 200,
      example_row (IntId 1) 12 ''Refund'' (- 100), example_row (IntId 2) 13 ''Payment'' 50,
      example_row (IntId 3) 14 ''Payment'' 50]"

definition example_db :: DonorDatabase where
  "example_db = fst (projr (DonorDatabase_init no_strptime example_rows))"

definition ascending_rows :: "Row list" where
  "ascending_rows =
     [example_row (IntId 1) 10 ''Payment'' 50, example_row (IntId 2) 11 ''Payment'' 700]"

definition ascending_db :: DonorDatabase where
  "ascending_db = fst (projr (DonorDatabase_init no_strptime ascending_rows))"

definition nan_rows :: "Row list" where
  "nan_rows =
     [example_row (IntId 1) 10 ''Payment'' 600, example_row (NaNId 0) 11 ''Payment'' 50]"

definition nan_db :: DonorDatabase where
  "nan_db = fst (projr (DonorDatabase_init no_strptime nan_rows))"

section \<open>Dictionaries\<close>

lemma map_of_dict_set: "map_of (dict_set k v kvs) = (map_of kvs)(k \<mapsto> v)"
  by (induction kvs) (auto simp: fun_eq_iff)

lemma dict_set_not_Nil: "dict_set k v kvs \<noteq> []"
  by (cases kvs) (auto split: if_splits)

lemma keys_dict_set_old:
  "k \<in> set (map fst kvs) \<Longrightarrow> map fst (dict_set k v kvs) = map fst kvs"
  by (induction kvs) force+

lemma keys_dict_set_new:
  "k \<notin> set (map fst kvs) \<Longrightarrow> map fst (dict_set k v kvs) = map fst kvs @ [k]"
  by (induction kvs) auto

lemma set_keys_dict_set: "set (map fst (dict_set k v kvs)) = insert k (set (map fst kvs))"
  by (cases "k \<in> set (map fst kvs)") (auto simp: keys_dict_set_old keys_dict_set_new)

lemma distinct_dict_set: "distinct (map fst kvs) \<Longrightarrow> distinct (map fst (dict_set k v kvs))"
  by (cases "k \<in> set (map fst kvs)") (simp_all add: keys_dict_set_old keys_dict_set_new)

lemma set_dict_set: "set (dict_set k v kvs) \<subseteq> insert (k, v) (set kvs)"
  by (induction kvs) (auto split: if_splits)

lemma entry_dict_set:
  "distinct (map fst kvs) \<Longrightarrow> (k', v') \<in> set (dict_set k v kvs) \<Longrightarrow>
     (k' = k \<and> v' = v) \<or> (k' \<noteq> k \<and> (k', v') \<in> set kvs)"
  by (induction kvs) (force split: if_splits)+

lemma foldl_plus_sum_list: "foldl (+) a xs = a + sum_list (xs :: real list)"
  by (induction xs arbitrary: a) (simp_all add: algebra_simps)

lemma sum_values_dict_set:
  "map_of kvs k = Some c \<Longrightarrow>
     sum_list (map snd (dict_set k (c + a) kvs)) = sum_list (map snd kvs) + (a::real)"
  by (induction kvs) (auto split: if_splits)

lemma donor_of_entry:
  "distinct (map fst kvs) \<Longrightarrow> (k, d) \<in> set kvs \<Longrightarrow> donor_of kvs k = d"
  by (simp add: donor_of_def)

lemma items_of_keys:
  "distinct (map fst kvs) \<Longrightarrow> map (\<lambda>k. (k, donor_of kvs k)) (map fst kvs) = kvs"
proof -
  assume d: "distinct (map fst kvs)"
  have "map (\<lambda>k. (k, donor_of kvs k)) (map fst kvs) = map (\<lambda>kv. kv) kvs"
    unfolding map_map
  proof (rule map_cong [OF refl])
    fix kv assume "kv \<in> set kvs"
    then have "donor_of kvs (fst kv) = snd kv"
      using donor_of_entry [OF d, of "fst kv" "snd kv"] by simp
    then show "((\<lambda>k. (k, donor_of kvs k)) \<circ> fst) kv = kv" by simp
  qed
  then show ?thesis by simp
qed

section \<open>Evaluation of the examples\<close>

lemmas donor_eval =
  example_donor_def no_strptime_def add_payment_def post_init_def convert_date_def
  string_to_datetime_def total_contributions_def dict_values_def level_def
  DonorLevel_members_def

lemmas database_eval =
  DonorDatabase_init_def ingest_row_def Donor_init_def add_payment_def post_init_def
  convert_date_def strip_opt_def parse_membership_def str_strip_def isspace_def
  dict_keys_def dict_values_def example_rows_def example_row_def no_strptime_def
  string_to_datetime_def

lemma example_donor_init:
  "Donor_init no_strptime (IntId 1) ''Ann '' '' Lee'' None (Some []) (Some []) (Some []) (Some [])
     (Some []) None DateNone = Inr example_donor"
  by (simp add: Donor_init_def example_donor_def strip_opt_def str_strip_def isspace_def
      parse_membership_def)

section \<open>The tier classifier\<close>

lemma level_loop_first:
  "level_loop t ls = Some l \<Longrightarrow>
     \<exists>i < length ls. ls ! i = l \<and> \<bar>t\<bar> < of_int (upper (level_value l)) \<and>
        (\<forall>j < i. \<not> \<bar>t\<bar> < of_int (upper (level_value (ls ! j))))"
proof (induction ls)
  case Nil
  then show ?case by simp
next
  case (Cons a ls)
  show ?case
  proof (cases "\<bar>t\<bar> < of_int (upper (level_value a))")
    case True
    with Cons.prems have "a = l" by simp
    with True show ?thesis by (intro exI [of _ 0]) simp
  next
    case False
    with Cons.prems have "level_loop t ls = Some l" by simp
    from Cons.IH [OF this] obtain i where i: "i < length ls" "ls ! i = l"
      "\<bar>t\<bar> < of_int (upper (level_value l))"
      "\<forall>j < i. \<not> \<bar>t\<bar> < of_int (upper (level_value (ls ! j)))" by blast
    have "\<forall>j < Suc i. \<not> \<bar>t\<bar> < of_int (upper (level_value ((a # ls) ! j)))"
      using False i(4) by (auto simp: less_Suc_eq_0_disj)
    with i show ?thesis by (intro exI [of _ "Suc i"]) simp
  qed
qed

lemma level_loop_in_range:
  "\<bar>t\<bar> < 250000 \<Longrightarrow> \<exists>l. level_loop t DonorLevel_members = Some l \<and>
      of_int (lower (level_value l)) \<le> \<bar>t\<bar> \<and> \<bar>t\<bar> < of_int (upper (level_value l))"
  by (simp add: DonorLevel_members_def)

lemma range_unique:
  "of_int (lower (level_value l)) \<le> (x::real) \<Longrightarrow> x < of_int (upper (level_value l)) \<Longrightarrow>
   of_int (lower (level_value l')) \<le> x \<Longrightarrow> x < of_int (upper (level_value l')) \<Longrightarrow> l' = l"
  by (cases l; cases l'; simp)

text \<open>
  C1, as stated, fails: a donor whose total is 250000 gets no level at all, because no
  member of the enumeration has an upper bound above that value.
\<close>

theorem level_unclassified_counterexample:
  "fst (level (fst (snd (add_payment no_strptime example_donor 10 (IntId 1) ''Payment'' DateNone
          DateNone [] [] 250000 0)))) = None"
  by (simp add: donor_eval)

text \<open>
  C1, amended: for a donor whose level has not been computed before and whose absolute
  total is below 250000, \<open>level\<close> returns a level; the absolute total lies in that
  level's range, lower bound included and upper bound excluded; no other level's range
  contains it; and the level is the first member, in definition order, whose upper bound
  exceeds the absolute total. A total of 500 gives level one and a total of 499.99 level
  zero.
\<close>

theorem level_classifies:
  assumes "d_donor_level self = None" and "\<bar>total_contributions self\<bar> < 250000"
  shows "\<exists>l. fst (level self) = Some l \<and>
           of_int (lower (level_value l)) \<le> \<bar>total_contributions self\<bar> \<and>
           \<bar>total_contributions self\<bar> < of_int (upper (level_value l)) \<and>
           (\<forall>l'. of_int (lower (level_value l')) \<le> \<bar>total_contributions self\<bar> \<and>
                 \<bar>total_contributions self\<bar> < of_int (upper (level_value l')) \<longrightarrow> l' = l) \<and>
           (\<exists>i < length DonorLevel_members. DonorLevel_members ! i = l \<and>
              (\<forall>j < i. \<not> \<bar>total_contributions self\<bar>
                           < of_int (upper (level_value (DonorLevel_members ! j))))) \<and>
           (total_contributions self = 500 \<longrightarrow> l = DONORLEVEL_ONE) \<and>
           (total_contributions self = 499.99 \<longrightarrow> l = DONORLEVEL_ZERO)"
proof -
  let ?t = "total_contributions self"
  from level_loop_in_range [OF assms(2)] obtain l where
    l: "level_loop ?t DonorLevel_members = Some l"
       "of_int (lower (level_value l)) \<le> \<bar>?t\<bar>" "\<bar>?t\<bar> < of_int (upper (level_value l))"
    by blast
  have res: "fst (level self) = Some l"
    using assms(1) l(1) by (simp add: level_def)
  have uniq: "\<forall>l'. of_int (lower (level_value l')) \<le> \<bar>?t\<bar> \<and>
                 \<bar>?t\<bar> < of_int (upper (level_value l')) \<longrightarrow> l' = l"
    using range_unique [OF l(2) l(3)] by blast
  have first: "\<exists>i < length DonorLevel_members. DonorLevel_members ! i = l \<and>
              (\<forall>j < i. \<not> \<bar>?t\<bar> < of_int (upper (level_value (DonorLevel_members ! j))))"
    using level_loop_first [OF l(1)] by blast
  have e1: "?t = 500 \<longrightarrow> l = DONORLEVEL_ONE"
    using l(1) by (auto simp: DonorLevel_members_def)
  have e2: "?t = 499.99 \<longrightarrow> l = DONORLEVEL_ZERO"
    using l(1) by (auto simp: DonorLevel_members_def)
  from res l(2,3) uniq first e1 e2 show ?thesis by blast
qed

text \<open>The amended C1 at a donor with one payment of 499.99: level zero.\<close>

theorem level_classifies_witness:
  "d_donor_level (fst (snd (add_payment no_strptime example_donor 10 (IntId 1) ''Payment'' DateNone
          DateNone [] [] 499.99 0))) = None \<and>
   \<bar>total_contributions (fst (snd (add_payment no_strptime example_donor 10 (IntId 1) ''Payment''
          DateNone DateNone [] [] 499.99 0)))\<bar> < 250000 \<and>
   fst (level (fst (snd (add_payment no_strptime example_donor 10 (IntId 1) ''Payment'' DateNone
          DateNone [] [] 499.99 0)))) = Some DONORLEVEL_ZERO"
proof -
  define d where "d = fst (snd (add_payment no_strptime example_donor 10 (IntId 1) ''Payment''
          DateNone DateNone [] [] 499.99 0))"
  have h1: "d_donor_level d = None" by (simp add: d_def donor_eval)
  have h2: "\<bar>total_contributions d\<bar> < 250000" by (simp add: d_def donor_eval)
  have t: "total_contributions d = 499.99" by (simp add: d_def donor_eval)
  have "fst (level d) = Some DONORLEVEL_ZERO"
    using level_classifies [OF h1 h2] t by (elim exE conjE) simp
  with h1 h2 show ?thesis unfolding d_def by blast
qed

text \<open>
  The memo is never cleared: a donor asked for its level after a payment of 100 and
  asked again after a further payment of 1000 still reports level zero, while the level of
  its total of 1100 is level two. This is why the amended C1 speaks of a donor whose level
  has not been computed before.
\<close>

lemma level_stale_memo:
  "fst (level (fst (snd (add_payment no_strptime
          (snd (level (fst (snd (add_payment no_strptime example_donor 10 (IntId 1) ''Payment''
                                   DateNone DateNone [] [] 100 0)))))
          11 (IntId 1) ''Payment'' DateNone DateNone [] [] 1000 0)))) = Some DONORLEVEL_ZERO \<and>
   level_loop 1100 DonorLevel_members = Some DONORLEVEL_TWO"
  by (simp add: donor_eval)

section \<open>Adding payments to a donor\<close>

lemma add_payment_accepted:
  assumes "add_payment strptime self tid uid ctype actual posted ptype meta amt gl =
             (Inr (Some payment), self', ws)"
  shows "py_eq (d_id self) uid" and "transaction_id payment = tid" and "amount payment = amt"
    and "contribution_type payment = ctype"
    and "d_payments self' = dict_set tid payment (d_payments self)"
    and "total_contributions self' = total_contributions self + amt"
    and "d_id self' = d_id self" and "d_donor_level self' = d_donor_level self"
  using assms
  by (auto simp: add_payment_def post_init_def total_contributions_def dict_values_def Let_def
      foldl_plus_sum_list sum_values_dict_set
      split: if_splits sum.splits prod.splits option.splits)

lemma add_payment_rejected:
  assumes "add_payment strptime self tid uid ctype actual posted ptype meta amt gl =
             (Inr None, self', ws)"
  shows "\<not> py_eq (d_id self) uid" and "self' = self"
  using assms
  by (auto simp: add_payment_def Let_def split: if_splits sum.splits prod.splits option.splits)

text \<open>
  C3: when the payment's user id differs from the donor's id (the test \<open>==\<close> of the
  source fails), \<open>add_payment\<close> returns
  \<open>None\<close> and the donor it leaves behind is the donor it was given: the payments, the
  three running totals and their sum are unchanged. One warning is issued.
\<close>

theorem add_payment_mismatch:
  assumes "\<not> py_eq (d_id self) uid"
  shows "add_payment strptime self tid uid ctype actual posted ptype meta amt gl =
           (Inr None, self, [UnableToAdd tid uid (d_id self)])"
  using assms by (simp add: add_payment_def)

text \<open>C3 at the example donor (id 1) and a payment for user 2.\<close>

theorem add_payment_mismatch_witness:
  "\<not> py_eq (d_id example_donor) (IntId 2) \<and>
   add_payment no_strptime example_donor 10 (IntId 2) ''Payment'' DateNone DateNone [] [] 25 0 =
     (Inr None, example_donor, [UnableToAdd 10 (IntId 2) (IntId 1)])"
proof -
  have h: "\<not> py_eq (d_id example_donor) (IntId 2)" by (simp add: example_donor_def)
  have i: "d_id example_donor = IntId 1" by (simp add: example_donor_def)
  from add_payment_mismatch [OF h, of no_strptime 10 "''Payment''" DateNone DateNone "[]" "[]"
      25 0] h i
  show ?thesis by simp
qed

text \<open>
  C2, as stated, fails: after a payment of 100 and a second payment of 50 under the same
  transaction id, the donor's total is 150, not 50.
\<close>

theorem add_payment_twice_counterexample:
  "fst (add_payment no_strptime example_donor 10 (IntId 1) ''Payment'' DateNone DateNone [] [] 100 0)
     \<noteq> Inr None \<and>
   fst (add_payment no_strptime
          (fst (snd (add_payment no_strptime example_donor 10 (IntId 1) ''Payment'' DateNone DateNone
                       [] [] 100 0)))
          10 (IntId 1) ''Payment'' DateNone DateNone [] [] 50 0) \<noteq> Inr None \<and>
   total_contributions example_donor = 0 \<and>
   total_contributions
     (fst (snd (add_payment no_strptime
                  (fst (snd (add_payment no_strptime example_donor 10 (IntId 1) ''Payment'' DateNone
                               DateNone [] [] 100 0)))
                  10 (IntId 1) ''Payment'' DateNone DateNone [] [] 50 0))) = 150"
  by (simp add: donor_eval)

text \<open>
  C2, amended: when two payments with the same transaction id are added one after the
  other and both are accepted, the donor's total grows by both amounts; the payments
  dictionary keeps the second payment under that id, in the place of the first.
\<close>

theorem add_payment_twice_accumulates:
  assumes "add_payment strptime self tid uid ctype1 actual1 posted1 ptype1 meta1 amt1 gl1 =
             (Inr (Some payment1), self1, ws1)"
    and "add_payment strptime self1 tid uid ctype2 actual2 posted2 ptype2 meta2 amt2 gl2 =
             (Inr (Some payment2), self2, ws2)"
  shows "total_contributions self2 = total_contributions self + amt1 + amt2 \<and>
         map_of (d_payments self2) tid = Some payment2 \<and> amount payment2 = amt2 \<and>
         dict_keys (d_payments self2) = dict_keys (d_payments self1)"
proof -
  note a1 = add_payment_accepted [OF assms(1)]
  note a2 = add_payment_accepted [OF assms(2)]
  have t: "total_contributions self2 = total_contributions self + amt1 + amt2"
    using a1(6) a2(6) by simp
  have m: "map_of (d_payments self2) tid = Some payment2"
    using a2(5) by (simp add: map_of_dict_set)
  have "tid \<in> set (map fst (d_payments self1))"
    using a1(5) set_keys_dict_set [of tid payment1 "d_payments self"] by simp
  then have k: "dict_keys (d_payments self2) = dict_keys (d_payments self1)"
    using a2(5) by (simp add: dict_keys_def keys_dict_set_old)
  from t m a2(3) k show ?thesis by blast
qed

text \<open>
  The amended C2 at the example donor: a payment of 25 and then one of 40 under
  transaction id 10.
\<close>

theorem add_payment_twice_accumulates_witness:
  "add_payment no_strptime example_donor 10 (IntId 1) ''Payment'' DateNone DateNone [] [] 25 0 =
     (Inr (Some (example_payment DateNone DateNone)),
      example_donor\<lparr>d_payments := [(10, example_payment DateNone DateNone)],
        d_contributions := [(''Payment'', 25), (''Donation'', 0), (''Refund'', 0)]\<rparr>, []) \<and>
   add_payment no_strptime
     (example_donor\<lparr>d_payments := [(10, example_payment DateNone DateNone)],
        d_contributions := [(''Payment'', 25), (''Donation'', 0), (''Refund'', 0)]\<rparr>)
     10 (IntId 1) ''Payment'' DateNone DateNone [] [] 40 0 =
     (Inr (Some ((example_payment DateNone DateNone)\<lparr>amount := 40\<rparr>)),
      example_donor\<lparr>d_payments := [(10, (example_payment DateNone DateNone)\<lparr>amount := 40\<rparr>)],
        d_contributions := [(''Payment'', 65), (''Donation'', 0), (''Refund'', 0)]\<rparr>, []) \<and>
   total_contributions
     (example_donor\<lparr>d_payments := [(10, (example_payment DateNone DateNone)\<lparr>amount := 40\<rparr>)],
        d_contributions := [(''Payment'', 65), (''Donation'', 0), (''Refund'', 0)]\<rparr>) =
     total_contributions example_donor + 25 + 40"
proof -
  have h1: "add_payment no_strptime example_donor 10 (IntId 1) ''Payment'' DateNone DateNone [] [] 25 0 =
     (Inr (Some (example_payment DateNone DateNone)),
      example_donor\<lparr>d_payments := [(10, example_payment DateNone DateNone)],
        d_contributions := [(''Payment'', 25), (''Donation'', 0), (''Refund'', 0)]\<rparr>, [])"
    by (simp add: donor_eval example_payment_def)
  have h2: "add_payment no_strptime
     (example_donor\<lparr>d_payments := [(10, example_payment DateNone DateNone)],
        d_contributions := [(''Payment'', 25), (''Donation'', 0), (''Refund'', 0)]\<rparr>)
     10 (IntId 1) ''Payment'' DateNone DateNone [] [] 40 0 =
     (Inr (Some ((example_payment DateNone DateNone)\<lparr>amount := 40\<rparr>)),
      example_donor\<lparr>d_payments := [(10, (example_payment DateNone DateNone)\<lparr>amount := 40\<rparr>)],
        d_contributions := [(''Payment'', 65), (''Donation'', 0), (''Refund'', 0)]\<rparr>, [])"
    by (simp add: donor_eval example_payment_def)
  from add_payment_twice_accumulates [OF h1 h2] h1 h2 show ?thesis by blast
qed

section \<open>Dates of a payment\<close>

lemma convert_date_result:
  "convert_date strptime d = Inr a \<Longrightarrow> (\<exists>dt. a = DateTime dt) \<or> a = DateNone"
  by (cases d) (auto simp: convert_date_def string_to_datetime_def split: if_splits option.splits)

lemma post_init_dates:
  assumes "post_init strptime self = Inr (payment, ws)"
    and "convert_date strptime (actual_date self) = Inr a"
    and "convert_date strptime (posted_date self) = Inr p"
  shows "actual_date payment = (if truthy a then a else p)"
    and "posted_date payment = (if truthy p then p else a)"
    and "ws = (if \<not> truthy a \<and> truthy p then [NoValidDate] else [])"
  using assms by (auto simp: post_init_def Let_def)

text \<open>
  The part of C9 that the code keeps: when a payment comes out of \<open>__post_init__\<close> with
  a date in one field it has a date in both, and when one of the two was absent on input
  the two fields are equal.
\<close>

lemma post_init_one_date_present:
  assumes "post_init strptime self = Inr (payment, ws)"
    and "actual_date payment \<noteq> DateNone \<or> posted_date payment \<noteq> DateNone"
  shows "actual_date payment \<noteq> DateNone \<and> posted_date payment \<noteq> DateNone"
    and "actual_date self = DateNone \<or> actual_date self = DateStr [] \<or>
         posted_date self = DateNone \<or> posted_date self = DateStr [] \<Longrightarrow>
         actual_date payment = posted_date payment"
proof -
  from assms(1) obtain a p where a: "convert_date strptime (actual_date self) = Inr a"
    and p: "convert_date strptime (posted_date self) = Inr p"
    by (auto simp: post_init_def Let_def split: sum.splits)
  note r = post_init_dates [OF assms(1) a p]
  from convert_date_result [OF a] convert_date_result [OF p] r(1,2) assms(2)
  show "actual_date payment \<noteq> DateNone \<and> posted_date payment \<noteq> DateNone"
    by (auto split: if_splits)
  assume "actual_date self = DateNone \<or> actual_date self = DateStr [] \<or>
         posted_date self = DateNone \<or> posted_date self = DateStr []"
  then have "a = DateNone \<or> p = DateNone"
    using a p by (auto simp: convert_date_def string_to_datetime_def)
  with r(1,2) convert_date_result [OF a] convert_date_result [OF p]
  show "actual_date payment = posted_date payment"
    by (auto split: if_splits)
qed

text \<open>
  C9 at its failing inputs. A payment with both dates absent (as empty strings, or as
  \<open>None\<close>) comes out of \<open>__post_init__\<close> with both dates absent and no warning at all;
  the warning that says neither date is valid is issued for a payment whose actual date is
  absent and whose posted date is present.
\<close>

theorem post_init_both_absent_silent:
  "post_init strptime (example_payment (DateStr []) (DateStr [])) =
     Inr (example_payment DateNone DateNone, []) \<and>
   post_init strptime (example_payment DateNone DateNone) =
     Inr (example_payment DateNone DateNone, []) \<and>
   post_init strptime (example_payment DateNone (DateTime (Datetime 2020 1 31))) =
     Inr (example_payment (DateTime (Datetime 2020 1 31)) (DateTime (Datetime 2020 1 31)),
          [NoValidDate])"
  by (simp add: post_init_def convert_date_def string_to_datetime_def example_payment_def)

section \<open>Donors ranked by contribution\<close>

lemma top_donors_loop_take:
  "top_donors_loop n idx xs acc = acc @ take (nat (n + 1 - idx)) xs"
proof (induction xs arbitrary: idx acc)
  case Nil
  then show ?case by simp
next
  case (Cons x xs)
  show ?case
  proof (cases "idx > n")
    case True
    then show ?thesis by simp
  next
    case False
    then have "nat (n + 1 - idx) = Suc (nat (n + 1 - (idx + 1)))" by simp
    with False Cons.IH [of "idx + 1" "acc @ [x]"] show ?thesis by simp
  qed
qed

lemma py_sorted_length: "length (py_sorted key r xs) = length xs"
  by (simp add: py_sorted_def)

lemma py_sorted_reverse_mset: "mset (py_sorted key True xs) = mset xs"
  by (simp add: py_sorted_def)

lemma py_sorted_reverse_sorted:
  "sorted_wrt (\<lambda>a b. key a \<ge> key b) (py_sorted key True xs)"
proof -
  have "sorted (map key (sort_key key (rev xs)))" by (rule sorted_sort_key)
  then have "sorted_wrt (\<lambda>a b. key a \<le> key b) (sort_key key (rev xs))"
    by (simp add: sorted_map)
  then show ?thesis by (simp add: py_sorted_def sorted_wrt_rev)
qed

lemma py_sorted_reverse_stable:
  "filter (\<lambda>x. key x = t) (py_sorted key True xs) = filter (\<lambda>x. key x = t) xs"
proof -
  have "filter (\<lambda>x. key x = t) (rev (sort_key key (rev xs))) =
        rev (filter (\<lambda>x. key x = t) (sort_key key (rev xs)))"
    by (simp add: rev_filter)
  also have "\<dots> = rev (filter (\<lambda>x. key x = t) (rev xs))"
    by (simp only: sort_key_stable)
  also have "\<dots> = filter (\<lambda>x. key x = t) xs"
    by (simp add: rev_filter)
  finally show ?thesis by (simp add: py_sorted_def)
qed

text \<open>The example database and what its fields evaluate to.\<close>

lemma example_db_constructed:
  "DonorDatabase_init no_strptime example_rows = Inr (example_db, [])"
  by (simp add: example_db_def database_eval)

lemma example_db_keys: "dict_keys (db_donors example_db) = [IntId 1, IntId 2, IntId 3]"
  by (simp add: example_db_def database_eval)

lemma example_db_totals:
  "map (total_contributions \<circ> snd) (db_donors example_db) = [700, 50, 50]"
  by (simp add: example_db_def database_eval total_contributions_def)

lemma example_db_view: "db_donors_by_contribution example_db = None"
  by (simp add: example_db_def database_eval)

lemma example_sorted_keys: "sorted_keys example_db = [IntId 1, IntId 2, IntId 3]"
  by (simp add: sorted_keys_def py_sorted_def donor_of_def total_contributions_def example_db_def database_eval)

lemma donors_by_contribution_sorted:
  assumes "db_donors_by_contribution self = None \<or>
           db_donors_by_contribution self = Some (sorted_keys self)"
  shows "fst (donors_by_contribution self) = sorted_keys self"
    and "db_donors (snd (donors_by_contribution self)) = db_donors self"
    and "db_donors_by_contribution (snd (donors_by_contribution self)) = Some (sorted_keys self)"
  using assms
  by (auto simp: donors_by_contribution_def create_donors_by_contribution_def)

lemma sorted_keys_ranked:
  assumes "distinct (dict_keys (db_donors self))"
  shows "mset (map (\<lambda>k. (k, donor_of (db_donors self) k)) (sorted_keys self)) =
           mset (db_donors self)"
    and "sorted_wrt (\<lambda>a b. total_contributions (donor_of (db_donors self) a)
                          \<ge> total_contributions (donor_of (db_donors self) b))
           (sorted_keys self)"
    and "\<forall>t. filter (\<lambda>k. total_contributions (donor_of (db_donors self) k) = t)
               (sorted_keys self) =
             filter (\<lambda>k. total_contributions (donor_of (db_donors self) k) = t)
               (dict_keys (db_donors self))"
proof -
  let ?key = "\<lambda>k. total_contributions (donor_of (db_donors self) k)"
  let ?ks = "sorted_keys self"
  have d: "distinct (map fst (db_donors self))"
    using assms by (simp add: dict_keys_def)
  have "mset ?ks = mset (map fst (db_donors self))"
    by (simp add: sorted_keys_def py_sorted_reverse_mset dict_keys_def)
  then have "mset (map (\<lambda>k. (k, donor_of (db_donors self) k)) ?ks) =
             mset (map (\<lambda>k. (k, donor_of (db_donors self) k)) (map fst (db_donors self)))"
    by (metis mset_map)
  then show "mset (map (\<lambda>k. (k, donor_of (db_donors self) k)) ?ks) = mset (db_donors self)"
    by (simp only: items_of_keys [OF d])
  show "sorted_wrt (\<lambda>a b. ?key a \<ge> ?key b) ?ks"
    unfolding sorted_keys_def by (rule py_sorted_reverse_sorted)
  show "\<forall>t. filter (\<lambda>k. ?key k = t) ?ks = filter (\<lambda>k. ?key k = t) (dict_keys (db_donors self))"
    unfolding sorted_keys_def by (simp add: py_sorted_reverse_stable)
qed

text \<open>
  C6: on a registry whose ranked view is not built yet, or holds the sorted keys, and for
  \<open>n \<ge> 0\<close>, \<open>get_top_donors n\<close> returns the first \<open>min (n + 1) (number of donors)\<close>
  entries of the ranked sequence, in ranked order. The ranked sequence holds every donor
  of the registry exactly once, in descending order of \<open>total_contributions\<close>, donors of
  equal totals in registry order. When the registry holds more than \<open>n + 1\<close> donors the
  result has \<open>n + 1\<close> of them.
\<close>

theorem get_top_donors_takes:
  assumes "0 \<le> n" and "distinct (dict_keys (db_donors self))"
    and "db_donors_by_contribution self = None \<or>
         db_donors_by_contribution self = Some (sorted_keys self)"
  shows "\<exists>ks. mset (map (\<lambda>k. (k, donor_of (db_donors self) k)) ks) = mset (db_donors self) \<and>
           sorted_wrt (\<lambda>a b. total_contributions (donor_of (db_donors self) a)
                               \<ge> total_contributions (donor_of (db_donors self) b)) ks \<and>
           (\<forall>t. filter (\<lambda>k. total_contributions (donor_of (db_donors self) k) = t) ks =
                 filter (\<lambda>k. total_contributions (donor_of (db_donors self) k) = t)
                   (dict_keys (db_donors self))) \<and>
           fst (get_top_donors self n) =
             map (donor_of (db_donors self))
               (take (min (nat n + 1) (length (db_donors self))) ks) \<and>
           length (fst (get_top_donors self n)) = min (nat n + 1) (length (db_donors self)) \<and>
           (nat n + 1 < length (db_donors self) \<longrightarrow>
              length (fst (get_top_donors self n)) = nat n + 1)"
proof -
  let ?ks = "sorted_keys self"
  note v = donors_by_contribution_sorted [OF assms(3)]
  note r = sorted_keys_ranked [OF assms(2)]
  from assms(1) have n: "nat (n + 1 - 0) = nat n + 1" by simp
  have len: "length ?ks = length (db_donors self)"
    by (simp add: sorted_keys_def py_sorted_length dict_keys_def)
  have "fst (get_top_donors self n) =
          map (donor_of (db_donors self)) (top_donors_loop n 0 ?ks [])"
    using v(1,2) by (cases "donors_by_contribution self") (simp add: get_top_donors_def)
  then have g: "fst (get_top_donors self n) =
                  map (donor_of (db_donors self)) (take (nat n + 1) ?ks)"
    using n by (simp add: top_donors_loop_take)
  have t: "take (nat n + 1) ?ks = take (min (nat n + 1) (length (db_donors self))) ?ks"
    using len by (cases "nat n + 1 \<le> length ?ks") (simp_all add: min_def)
  have c1: "fst (get_top_donors self n) =
              map (donor_of (db_donors self))
                (take (min (nat n + 1) (length (db_donors self))) ?ks)"
    using g by (simp only: t)
  have l: "length (fst (get_top_donors self n)) = min (nat n + 1) (length (db_donors self))"
    using g len by (simp add: min.commute)
  have c4: "nat n + 1 < length (db_donors self) \<longrightarrow>
            length (fst (get_top_donors self n)) = nat n + 1"
    using l by simp
  from r c1 l c4 show ?thesis by blast
qed

lemma ascending_db_constructed:
  "DonorDatabase_init no_strptime ascending_rows = Inr (ascending_db, [])"
  by (simp add: ascending_db_def ascending_rows_def database_eval)

lemma ascending_db_keys: "dict_keys (db_donors ascending_db) = [IntId 1, IntId 2]"
  by (simp add: ascending_db_def ascending_rows_def database_eval)

lemma ascending_db_view: "db_donors_by_contribution ascending_db = None"
  by (simp add: ascending_db_def ascending_rows_def database_eval)

lemma ascending_db_donors:
  "total_contributions (donor_of (db_donors ascending_db) (IntId 1)) = 50"
  "total_contributions (donor_of (db_donors ascending_db) (IntId 2)) = 700"
  "d_id (donor_of (db_donors ascending_db) (IntId 2)) = IntId 2"
  by (simp_all add: donor_of_def total_contributions_def ascending_db_def ascending_rows_def
      database_eval)

lemma mset_pair_cases:
  assumes "mset ks = mset [a, b]"
  shows "ks = [a, b] \<or> ks = [b, a]"
proof -
  from assms have "length ks = 2" by (metis length_Cons list.size(3) numeral_2_eq_2 size_mset)
  then obtain x y where ks: "ks = [x, y]"
    by (metis (no_types) length_0_conv length_Suc_conv numeral_2_eq_2)
  with assms have "{#x, y#} = {#a, b#}" by simp
  then have "(x = a \<and> y = b) \<or> (x = b \<and> y = a)"
    by (auto simp: add_eq_conv_ex)
  with ks show ?thesis by auto
qed

text \<open>
  C6 at the registry whose donors arrive in ascending order of their totals (donor 1 with
  50, then donor 2 with 700) and \<open>n = 0\<close>: the one donor returned is donor 2.
\<close>

theorem get_top_donors_takes_witness:
  "(0::int) \<le> 0 \<and> distinct (dict_keys (db_donors ascending_db)) \<and>
   db_donors_by_contribution ascending_db = None \<and>
   dict_keys (db_donors ascending_db) = [IntId 1, IntId 2] \<and>
   map d_id (fst (get_top_donors ascending_db 0)) = [IntId 2]"
proof -
  let ?tot = "\<lambda>k. total_contributions (donor_of (db_donors ascending_db) k)"
  have h1: "(0::int) \<le> 0" by simp
  have h2: "distinct (dict_keys (db_donors ascending_db))" by (simp add: ascending_db_keys)
  have h3: "db_donors_by_contribution ascending_db = None \<or>
            db_donors_by_contribution ascending_db = Some (sorted_keys ascending_db)"
    by (simp add: ascending_db_view)
  have len: "length (db_donors ascending_db) = 2"
    using ascending_db_keys by (metis dict_keys_def length_map length_Cons list.size(3)
        numeral_2_eq_2)
  from get_top_donors_takes [OF h1 h2 h3] obtain ks where
    m: "mset (map (\<lambda>k. (k, donor_of (db_donors ascending_db) k)) ks) =
          mset (db_donors ascending_db)"
    and s: "sorted_wrt (\<lambda>a b. ?tot a \<ge> ?tot b) ks"
    and g: "fst (get_top_donors ascending_db 0) =
             map (donor_of (db_donors ascending_db))
               (take (min (nat 0 + 1) (length (db_donors ascending_db))) ks)"
    by blast
  from m have "mset (map fst (map (\<lambda>k. (k, donor_of (db_donors ascending_db) k)) ks)) =
               mset (map fst (db_donors ascending_db))"
    by (metis mset_map)
  then have "mset ks = mset (dict_keys (db_donors ascending_db))"
    by (simp add: dict_keys_def comp_def)
  then have "mset ks = mset [IntId 1, IntId 2]" by (simp only: ascending_db_keys)
  from mset_pair_cases [OF this] s ascending_db_donors(1,2)
  have ks: "ks = [IntId 2, IntId 1]" by auto
  from g have "fst (get_top_donors ascending_db 0) =
                 [donor_of (db_donors ascending_db) (IntId 2)]"
    by (simp add: ks len)
  then have "map d_id (fst (get_top_donors ascending_db 0)) = [IntId 2]"
    by (simp add: ascending_db_donors(3))
  with h1 h2 ascending_db_view ascending_db_keys show ?thesis by blast
qed

text \<open>
  C5: \<open>_create_donors_by_contribution\<close> leaves the donors as they are and stores a
  view that holds every donor of the registry exactly once, in descending order of
  \<open>total_contributions\<close>, with the donors of any one total in the order in which the
  registry holds them.
\<close>

theorem create_donors_by_contribution_ranked:
  assumes "distinct (dict_keys (db_donors self))"
  shows "\<exists>ks. db_donors_by_contribution (create_donors_by_contribution self) = Some ks \<and>
           db_donors (create_donors_by_contribution self) = db_donors self \<and>
           mset (map (\<lambda>k. (k, donor_of (db_donors self) k)) ks) = mset (db_donors self) \<and>
           sorted_wrt (\<lambda>a b. total_contributions (donor_of (db_donors self) a)
                               \<ge> total_contributions (donor_of (db_donors self) b)) ks \<and>
           (\<forall>t. filter (\<lambda>k. total_contributions (donor_of (db_donors self) k) = t) ks =
                 filter (\<lambda>k. total_contributions (donor_of (db_donors self) k) = t)
                   (dict_keys (db_donors self)))"
  using sorted_keys_ranked [OF assms] by (simp add: create_donors_by_contribution_def)

text \<open>
  C5 at the example database: donors 2 and 3 both have a total of 50 and stay in that
  order behind donor 1.
\<close>

theorem create_donors_by_contribution_ranked_witness:
  "distinct (dict_keys (db_donors example_db)) \<and>
   db_donors_by_contribution (create_donors_by_contribution example_db) = Some [IntId 1, IntId 2, IntId 3] \<and>
   filter (\<lambda>k. total_contributions (donor_of (db_donors example_db) k) = 50) [IntId 1, IntId 2, IntId 3] =
     filter (\<lambda>k. total_contributions (donor_of (db_donors example_db) k) = 50)
       (dict_keys (db_donors example_db))"
proof -
  have h: "distinct (dict_keys (db_donors example_db))"
    by (simp add: example_db_keys)
  have v: "db_donors_by_contribution (create_donors_by_contribution example_db) = Some [IntId 1, IntId 2, IntId 3]"
    by (simp add: create_donors_by_contribution_def example_sorted_keys)
  from create_donors_by_contribution_ranked [OF h] v
  have "\<forall>t. filter (\<lambda>k. total_contributions (donor_of (db_donors example_db) k) = t) [IntId 1, IntId 2, IntId 3] =
                 filter (\<lambda>k. total_contributions (donor_of (db_donors example_db) k) = t)
                   (dict_keys (db_donors example_db))"
    by (elim exE conjE) simp
  with h v show ?thesis by blast
qed

section \<open>The constructor keeps the invariant\<close>

lemma Donor_init_fields:
  assumes "Donor_init strptime uid first_name last_name full mail s1 s2 cty st post mexp = Inr d"
  shows "d_id d = uid" and "d_payments d = []" and "d_donor_level d = None"
  using assms by (auto simp: Donor_init_def Let_def split: sum.splits)

lemma ingest_row_inv:
  assumes inv: "donors_inv donors"
    and step: "ingest_row strptime row (donors, payments, ws) = Inr (donors', payments', ws')"
  shows "donors_inv donors'"
proof -
  let ?uid = "row_user_id row"
  from inv have dist: "distinct (map fst donors)"
    and ent: "\<And>k d. (k, d) \<in> set donors \<Longrightarrow>
                d_id d = k \<and> d_donor_level d = None \<and> (py_eq k k \<longrightarrow> d_payments d \<noteq> [])"
    by (auto simp: donors_inv_def dict_keys_def)
  obtain donors1 where d1:
    "(if ?uid \<notin> set (dict_keys donors) then
              (case Donor_init strptime ?uid (row_firstname row)
                      (row_lastname row) (row_full_name row) (row_email row)
                      (row_street_1 row) (row_street_2 row) (row_city row) (row_state row)
                      (row_postal row) (row_membership_expiration_date row) of
                 Inl e \<Rightarrow> Inl e
               | Inr d \<Rightarrow> Inr (dict_set ?uid d donors))
            else Inr donors) = Inr donors1"
    using step by (auto simp: ingest_row_def split: sum.splits)
  have dist1: "distinct (map fst donors1)"
    using d1 dist by (auto simp: distinct_dict_set split: if_splits sum.splits)
  have ent1: "\<And>k d. (k, d) \<in> set donors1 \<Longrightarrow>
                d_id d = k \<and> d_donor_level d = None \<and>
                (k \<noteq> ?uid \<longrightarrow> py_eq k k \<longrightarrow> d_payments d \<noteq> [])"
  proof -
    fix k d assume kd: "(k, d) \<in> set donors1"
    show "d_id d = k \<and> d_donor_level d = None \<and>
          (k \<noteq> ?uid \<longrightarrow> py_eq k k \<longrightarrow> d_payments d \<noteq> [])"
    proof (cases "?uid \<in> set (dict_keys donors)")
      case True
      with d1 have "donors1 = donors" by simp
      with kd ent show ?thesis by blast
    next
      case False
      with d1 obtain d0 where d0: "Donor_init strptime ?uid (row_firstname row)
                      (row_lastname row) (row_full_name row) (row_email row)
                      (row_street_1 row) (row_street_2 row) (row_city row) (row_state row)
                      (row_postal row) (row_membership_expiration_date row) = Inr d0"
        and eq: "donors1 = dict_set ?uid d0 donors"
        by (auto split: sum.splits)
      from entry_dict_set [OF dist] kd eq
      have "(k = ?uid \<and> d = d0) \<or> (k \<noteq> ?uid \<and> (k, d) \<in> set donors)" by blast
      with Donor_init_fields [OF d0] ent show ?thesis by blast
    qed
  qed
  obtain donor where lk: "map_of donors1 ?uid = Some donor"
    using step d1 by (auto simp: ingest_row_def split: sum.splits option.splits)
  then have mem: "(?uid, donor) \<in> set donors1" by (rule map_of_SomeD)
  with ent1 have idd: "d_id donor = ?uid" and lvd: "d_donor_level donor = None" by blast+
  obtain res donor' ws1 where ap:
    "add_payment strptime donor (row_transaction_id row) ?uid
       (row_type row) (row_actual_date row) (row_posted_date row)
       (row_payment_type row) (row_response_meta row) (row_amount row)
       (row_gl_code row) = (Inr res, donor', ws1)"
    and eq': "donors' = dict_set ?uid donor' donors1"
    using step d1 lk
    by (auto simp: ingest_row_def split: sum.splits option.splits prod.splits)
  have don': "d_id donor' = ?uid \<and> d_donor_level donor' = None \<and>
              (py_eq ?uid ?uid \<longrightarrow> d_payments donor' \<noteq> [])"
  proof (cases res)
    case None
    from add_payment_rejected [OF ap [unfolded None]] idd lvd show ?thesis by simp
  next
    case (Some payment)
    note acc = add_payment_accepted [OF ap [unfolded Some]]
    from acc(5,7,8) idd lvd show ?thesis by (simp add: dict_set_not_Nil)
  qed
  have "distinct (dict_keys donors')"
    using dist1 eq' by (simp add: dict_keys_def distinct_dict_set)
  moreover have "\<forall>(k, d) \<in> set donors'.
      d_id d = k \<and> d_donor_level d = None \<and> (py_eq k k \<longrightarrow> d_payments d \<noteq> [])"
  proof (clarify)
    fix k d assume "(k, d) \<in> set donors'"
    with entry_dict_set [OF dist1] eq'
    have "(k = ?uid \<and> d = donor') \<or> (k \<noteq> ?uid \<and> (k, d) \<in> set donors1)" by blast
    with don' ent1
    show "d_id d = k \<and> d_donor_level d = None \<and> (py_eq k k \<longrightarrow> d_payments d \<noteq> [])"
      by blast
  qed
  ultimately show ?thesis by (simp add: donors_inv_def)
qed

lemma ingest_row_keys:
  assumes "ingest_row strptime row (donors, payments, ws) = Inr (donors', payments', ws')"
  shows "set (dict_keys donors') \<subseteq> insert (row_user_id row) (set (dict_keys donors))"
proof -
  let ?uid = "row_user_id row"
  from assms obtain donors1 donor' where
    d1: "donors1 = donors \<or> (\<exists>d0. donors1 = dict_set ?uid d0 donors)"
    and eq: "donors' = dict_set ?uid donor' donors1"
    by (simp add: ingest_row_def split: sum.splits option.splits prod.splits if_splits)
       blast+
  from d1 have "set (map fst donors1) \<subseteq> insert ?uid (set (map fst donors))"
    by (auto simp only: set_keys_dict_set)
  with eq show ?thesis
    by (auto simp only: dict_keys_def set_keys_dict_set)
qed

lemma ingest_inv:
  "donors_inv (fst s) \<Longrightarrow> ingest strptime rows s = Inr s' \<Longrightarrow> donors_inv (fst s')"
proof (induction rows arbitrary: s)
  case Nil
  then show ?case by simp
next
  case (Cons row rows)
  from Cons.prems(2) obtain s1 where s1: "ingest_row strptime row s = Inr s1"
    and rest: "ingest strptime rows s1 = Inr s'"
    by (auto split: sum.splits)
  obtain donors payments ws where s: "s = (donors, payments, ws)" by (cases s)
  obtain donors1 payments1 ws1 where s1': "s1 = (donors1, payments1, ws1)" by (cases s1)
  from ingest_row_inv [of donors strptime row payments ws donors1 payments1 ws1]
    Cons.prems(1) s1 s s1'
  have "donors_inv (fst s1)" by simp
  from Cons.IH [OF this rest] show ?case .
qed

lemma ingest_keys:
  "ingest strptime rows s = Inr s' \<Longrightarrow>
     set (dict_keys (fst s')) \<subseteq> set (dict_keys (fst s)) \<union> row_user_id ` set rows"
proof (induction rows arbitrary: s)
  case Nil
  then show ?case by simp
next
  case (Cons row rows)
  from Cons.prems obtain s1 where s1: "ingest_row strptime row s = Inr s1"
    and rest: "ingest strptime rows s1 = Inr s'"
    by (auto split: sum.splits)
  obtain donors payments ws where s: "s = (donors, payments, ws)" by (cases s)
  obtain donors1 payments1 ws1 where s1': "s1 = (donors1, payments1, ws1)" by (cases s1)
  from ingest_row_keys [of strptime row donors payments ws donors1 payments1 ws1] s1 s s1'
  have "set (dict_keys (fst s1)) \<subseteq> insert (row_user_id row) (set (dict_keys (fst s)))"
    by simp
  with Cons.IH [OF rest] show ?case by auto
qed

lemma init_inv:
  assumes "DonorDatabase_init strptime rows = Inr (self, ws)"
  shows "donors_inv (db_donors self)"
    and "db_top_donor self = None" and "db_total_contributions self = None"
    and "db_donors_by_contribution self = None" and "db_donors_by_level self = None"
    and "db_donor_level_stats self = None"
    and "set (dict_keys (db_donors self)) \<subseteq> row_user_id ` set rows"
proof -
  from assms obtain donors payments where
    i: "ingest strptime rows ([], [], []) = Inr (donors, payments, ws)"
    and s: "self = \<lparr>db_payments = payments, db_donors = donors, db_top_donor = None,
                db_total_contributions = None, db_donors_by_contribution = None,
                db_donors_by_level = None, db_donor_level_stats = None\<rparr>"
    by (auto simp: DonorDatabase_init_def split: sum.splits)
  have "donors_inv (fst ([], [], []))" by (simp add: donors_inv_def dict_keys_def)
  from ingest_inv [OF this i] s show "donors_inv (db_donors self)" by simp
  from s show "db_top_donor self = None" "db_total_contributions self = None"
    "db_donors_by_contribution self = None" "db_donors_by_level self = None"
    "db_donor_level_stats self = None" by simp_all
  from ingest_keys [OF i] s show "set (dict_keys (db_donors self)) \<subseteq> row_user_id ` set rows"
    by (simp add: dict_keys_def)
qed

section \<open>The level memo\<close>

lemma level_keeps:
  assumes "level d = (lvl, d')"
  shows "total_contributions d' = total_contributions d"
    and "d_payments d' = d_payments d" and "d_id d' = d_id d"
  using assms by (auto simp: level_def total_contributions_def Let_def split: option.splits)

lemma level_again:
  "fst (level (snd (level d))) = fst (level d) \<and> snd (level (snd (level d))) = snd (level d)"
  by (cases "level_loop (total_contributions d) DonorLevel_members")
     (auto simp: level_def total_contributions_def Let_def split: option.splits)

lemma level_memo_ok:
  assumes "memo_ok d" and "level d = (lvl, d')"
  shows "lvl = level_loop (total_contributions d) DonorLevel_members" and "memo_ok d'"
  using assms
  by (auto simp: memo_ok_def level_def total_contributions_def Let_def split: option.splits)

section \<open>The grouping loop\<close>

lemma donor_of_dict_set:
  "donor_of (dict_set k d donors) k' = (if k' = k then d else donor_of donors k')"
  by (simp add: donor_of_def map_of_dict_set)

lemma donor_of_mem:
  "k \<in> set (map fst donors) \<Longrightarrow> (k, donor_of donors k) \<in> set donors"
proof -
  assume "k \<in> set (map fst donors)"
  then obtain d where "map_of donors k = Some d"
    by (metis map_of_eq_None_iff not_Some_eq set_map)
  then show ?thesis by (simp add: donor_of_def map_of_SomeD)
qed

lemma group_loop_store:
  assumes "set ks \<subseteq> set (map fst donors)"
    and "group_loop ks donors by_level = (donors', groups)"
  shows "map fst donors' = map fst donors \<and>
         (\<forall>k. total_contributions (donor_of donors' k) = total_contributions (donor_of donors k)
             \<and> d_payments (donor_of donors' k) = d_payments (donor_of donors k))"
  using assms
proof (induction ks arbitrary: donors by_level)
  case Nil
  then show ?case by simp
next
  case (Cons k ks)
  obtain lvl d1 where lv: "level (donor_of donors k) = (lvl, d1)"
    by (cases "level (donor_of donors k)")
  let ?donors1 = "dict_set k d1 donors"
  from Cons.prems(1) have kin: "k \<in> set (map fst donors)" by simp
  then have keys1: "map fst ?donors1 = map fst donors" by (rule keys_dict_set_old)
  from Cons.prems(2) lv obtain by_level1 where
    rec: "group_loop ks ?donors1 by_level1 = (donors', groups)"
    by simp
  from Cons.prems(1) keys1 have "set ks \<subseteq> set (map fst ?donors1)" by simp
  from Cons.IH [OF this rec] have
    ih1: "map fst donors' = map fst ?donors1" and
    ih2: "\<And>k'. total_contributions (donor_of donors' k') = total_contributions (donor_of ?donors1 k')
             \<and> d_payments (donor_of donors' k') = d_payments (donor_of ?donors1 k')"
    by blast+
  have "\<And>k'. total_contributions (donor_of ?donors1 k') = total_contributions (donor_of donors k')
             \<and> d_payments (donor_of ?donors1 k') = d_payments (donor_of donors k')"
    using level_keeps [OF lv] by (simp add: donor_of_dict_set)
  with ih1 ih2 keys1 show ?case by simp
qed

lemma dict_set_append:
  "map_of kvs k = None \<Longrightarrow> dict_set k v kvs = kvs @ [(k, v)]"
  by (induction kvs) (auto split: if_splits)

lemma concat_dict_set_extend:
  "map_of kvs k = Some ds \<Longrightarrow>
     mset (concat (map snd (dict_set k (ds @ x) kvs))) = mset (concat (map snd kvs)) + mset x"
  by (induction kvs) (auto split: if_splits)

lemma group_loop_groups:
  assumes "group_loop ks donors by_level = (donors', groups)"
    and "distinct (map fst by_level)"
    and "\<forall>(l, g) \<in> set by_level. g \<noteq> []"
  shows "mset (concat (map snd groups)) = mset (concat (map snd by_level)) + mset ks \<and>
         distinct (map fst groups) \<and> (\<forall>(l, g) \<in> set groups. g \<noteq> [])"
  using assms
proof (induction ks arbitrary: donors by_level)
  case Nil
  then show ?case by simp
next
  case (Cons k ks)
  obtain lvl d1 where lv: "level (donor_of donors k) = (lvl, d1)"
    by (cases "level (donor_of donors k)")
  let ?by1 = "case map_of by_level lvl of
               None \<Rightarrow> dict_set lvl [k] by_level
             | Some ds \<Rightarrow> dict_set lvl (ds @ [k]) by_level"
  from Cons.prems(1) lv have rec: "group_loop ks (dict_set k d1 donors) ?by1 = (donors', groups)"
    by simp
  have d1: "distinct (map fst ?by1)"
    using Cons.prems(2) by (simp add: distinct_dict_set split: option.splits)
  have n1: "\<forall>(l, g) \<in> set ?by1. g \<noteq> []"
  proof (cases "map_of by_level lvl")
    case None
    then show ?thesis using Cons.prems(3) by (simp add: dict_set_append)
  next
    case (Some ds)
    then show ?thesis
      using Cons.prems(3) set_dict_set [of lvl "ds @ [k]" by_level] by auto
  qed
  have m1: "mset (concat (map snd ?by1)) = mset (concat (map snd by_level)) + mset [k]"
  proof (cases "map_of by_level lvl")
    case None
    then show ?thesis by (simp add: dict_set_append)
  next
    case (Some ds)
    then show ?thesis by (simp only: option.case concat_dict_set_extend)
  qed
  from Cons.IH [OF rec d1 n1] m1 show ?case by simp
qed

lemma group_loop_levels:
  assumes "group_loop ks donors by_level = (donors', groups)"
    and "set ks \<subseteq> set (map fst donors)"
    and "\<forall>(k, d) \<in> set donors. memo_ok d \<and>
           level_loop (total_contributions d) DonorLevel_members \<noteq> None"
    and "None \<notin> set (map fst by_level)"
  shows "None \<notin> set (map fst groups)"
  using assms
proof (induction ks arbitrary: donors by_level)
  case Nil
  then show ?case by simp
next
  case (Cons k ks)
  obtain lvl d1 where lv: "level (donor_of donors k) = (lvl, d1)"
    by (cases "level (donor_of donors k)")
  let ?donors1 = "dict_set k d1 donors"
  let ?by1 = "case map_of by_level lvl of
               None \<Rightarrow> dict_set lvl [k] by_level
             | Some ds \<Rightarrow> dict_set lvl (ds @ [k]) by_level"
  from Cons.prems(1) lv have rec: "group_loop ks ?donors1 ?by1 = (donors', groups)"
    by simp
  from Cons.prems(2) have kin: "k \<in> set (map fst donors)" by simp
  from donor_of_mem [OF kin] Cons.prems(3)
  have dk: "memo_ok (donor_of donors k)"
    "level_loop (total_contributions (donor_of donors k)) DonorLevel_members \<noteq> None"
    by blast+
  from level_memo_ok [OF dk(1) lv] dk(2) level_keeps(1) [OF lv]
  have l1: "lvl \<noteq> None" and m1: "memo_ok d1"
    and c1: "level_loop (total_contributions d1) DonorLevel_members \<noteq> None"
    by simp_all
  have keys1: "set ks \<subseteq> set (map fst ?donors1)"
    using Cons.prems(2) kin by (simp add: keys_dict_set_old)
  have inv1: "\<forall>(k, d) \<in> set ?donors1. memo_ok d \<and>
           level_loop (total_contributions d) DonorLevel_members \<noteq> None"
    using Cons.prems(3) m1 c1 set_dict_set [of k d1 donors] by auto
  have "set (map fst ?by1) = insert lvl (set (map fst by_level))"
    by (simp only: set_keys_dict_set split: option.splits) simp
  with l1 Cons.prems(4) have none1: "None \<notin> set (map fst ?by1)" by auto
  from Cons.IH [OF rec keys1 inv1 none1] show ?case .
qed

section \<open>The statistics loop\<close>

lemma stats_inner_eq:
  "stats_inner donors ks (n, t, ps) =
     (n + sum_list (map (\<lambda>k. num_payments (donor_of donors k)) ks),
      t + sum_list (map (\<lambda>k. total_contributions (donor_of donors k)) ks),
      ps @ concat (map (\<lambda>k. map amount (dict_values (d_payments (donor_of donors k)))) ks))"
  by (induction ks arbitrary: n t ps) (simp_all add: Let_def algebra_simps)

lemma np_max_error: "np_max xs = Inl e \<Longrightarrow> xs = [] \<and> e = ValueError"
  by (cases xs) (simp_all add: np_max_def)

lemma np_min_error: "np_min xs = Inl e \<Longrightarrow> xs = [] \<and> e = ValueError"
  by (cases xs) (simp_all add: np_min_def)

lemma level_stats_error:
  assumes "level_stats donors lvl ks = Inl e"
  shows "e = ValueError \<and> snd (snd (stats_inner donors ks (0, 0, []))) = []"
  using assms np_max_error np_min_error
  by (fastforce simp: level_stats_def split: prod.splits sum.splits)

lemma level_stats_total:
  assumes "level_stats donors lvl ks = Inr st"
  shows "st_total st = sum_list (map (\<lambda>k. total_contributions (donor_of donors k)) ks)"
  using assms
  by (auto simp: level_stats_def stats_inner_eq split: prod.splits sum.splits)

lemma group_payments_not_Nil:
  assumes "ks \<noteq> []" and "\<forall>k \<in> set ks. d_payments (donor_of donors k) \<noteq> []"
  shows "snd (snd (stats_inner donors ks (0, 0, []))) \<noteq> []"
  using assms by (cases ks) (auto simp: stats_inner_eq dict_values_def)

lemma stats_loop_error:
  "stats_loop donors groups acc = Inl e \<Longrightarrow>
     e = ValueError \<and>
     (\<exists>(l, ks) \<in> set groups. snd (snd (stats_inner donors ks (0, 0, []))) = [])"
proof (induction groups arbitrary: acc)
  case Nil
  then show ?case by simp
next
  case (Cons g groups)
  obtain l ks where g: "g = (l, ks)" by (cases g)
  show ?case
  proof (cases "level_stats donors l ks")
    case (Inl e')
    with Cons.prems g have "e' = e" by simp
    with level_stats_error [OF Inl] g show ?thesis by auto
  next
    case (Inr st)
    with Cons.prems g have "stats_loop donors groups (dict_set l st acc) = Inl e" by simp
    from Cons.IH [OF this] show ?thesis by auto
  qed
qed

lemma stats_loop_total:
  "stats_loop donors groups acc = Inr sts \<Longrightarrow> distinct (map fst groups) \<Longrightarrow>
   set (map fst groups) \<inter> set (map fst acc) = {} \<Longrightarrow>
     sum_list (map (st_total \<circ> snd) sts) =
       sum_list (map (st_total \<circ> snd) acc) +
       sum_list (map (\<lambda>k. total_contributions (donor_of donors k)) (concat (map snd groups))) \<and>
     map fst sts = map fst acc @ map fst groups"
proof (induction groups arbitrary: acc)
  case Nil
  then show ?case by simp
next
  case (Cons g groups)
  obtain l ks where g: "g = (l, ks)" by (cases g)
  from Cons.prems(1) g obtain st where st: "level_stats donors l ks = Inr st"
    and rec: "stats_loop donors groups (dict_set l st acc) = Inr sts"
    by (auto split: sum.splits)
  from Cons.prems(3) g have "l \<notin> set (map fst acc)" by auto
  then have "map_of acc l = None" by (simp add: map_of_eq_None_iff)
  then have acc1: "dict_set l st acc = acc @ [(l, st)]" by (rule dict_set_append)
  from Cons.prems(2) g have d: "distinct (map fst groups)" and ln: "l \<notin> set (map fst groups)"
    by auto
  from Cons.prems(3) g ln have disj: "set (map fst groups) \<inter> set (map fst (dict_set l st acc)) = {}"
    by (auto simp: acc1)
  from Cons.IH [OF rec d disj] level_stats_total [OF st] g show ?case
    by (simp add: acc1)
qed

section \<open>Sums over the registry\<close>

lemma foldl_total_sum_list:
  "foldl (\<lambda>acc donor. acc + total_contributions donor) a ds =
     a + sum_list (map total_contributions ds)"
  by (induction ds arbitrary: a) (simp_all add: algebra_simps)

lemma sum_list_mset_cong:
  "mset xs = mset ys \<Longrightarrow> sum_list (map f xs) = sum_list (map (f :: 'a \<Rightarrow> real) ys)"
  by (metis mset_map sum_mset_sum_list)

lemma sum_over_keys:
  assumes "distinct (map fst donors)"
  shows "sum_list (map (\<lambda>k. total_contributions (donor_of donors k)) (map fst donors)) =
         sum_list (map total_contributions (map snd donors))"
proof -
  have "\<And>kv. kv \<in> set donors \<Longrightarrow>
          total_contributions (donor_of donors (fst kv)) = total_contributions (snd kv)"
    using donor_of_entry [OF assms] by (metis prod.collapse)
  then have "map (\<lambda>kv. total_contributions (donor_of donors (fst kv))) donors =
             map (\<lambda>kv. total_contributions (snd kv)) donors"
    by (rule map_cong [OF refl])
  then have "sum_list (map (\<lambda>kv. total_contributions (donor_of donors (fst kv))) donors) =
             sum_list (map (\<lambda>kv. total_contributions (snd kv)) donors)"
    by (rule arg_cong)
  then show ?thesis by (simp only: map_map comp_def)
qed

section \<open>The views of a database in use\<close>

lemma group_loop_memo:
  assumes "group_loop ks donors by_level = (donors', groups)"
    and "set ks \<subseteq> set (map fst donors)"
    and "\<forall>(k, d) \<in> set donors. memo_ok d"
  shows "\<forall>(k, d) \<in> set donors'. memo_ok d"
  using assms
proof (induction ks arbitrary: donors by_level)
  case Nil
  then show ?case by simp
next
  case (Cons k ks)
  obtain lvl d1 where lv: "level (donor_of donors k) = (lvl, d1)"
    by (cases "level (donor_of donors k)")
  let ?donors1 = "dict_set k d1 donors"
  from Cons.prems(1) lv obtain by_level1 where
    rec: "group_loop ks ?donors1 by_level1 = (donors', groups)"
    by simp
  from Cons.prems(2) have kin: "k \<in> set (map fst donors)" by simp
  from donor_of_mem [OF kin] Cons.prems(3) have "memo_ok (donor_of donors k)" by blast
  from level_memo_ok(2) [OF this lv] have m1: "memo_ok d1" .
  have keys1: "set ks \<subseteq> set (map fst ?donors1)"
    using Cons.prems(2) kin by (simp add: keys_dict_set_old)
  have inv1: "\<forall>(k, d) \<in> set ?donors1. memo_ok d"
    using Cons.prems(3) m1 set_dict_set [of k d1 donors] by auto
  from Cons.IH [OF rec keys1 inv1] show ?case .
qed

lemma views_ok_view:
  assumes "views_ok self"
  shows "db_donors_by_contribution self = None \<or>
         db_donors_by_contribution self = Some (sorted_keys self)"
  using assms by (cases "db_donors_by_contribution self") (simp_all add: views_ok_def)

lemma sorted_keys_cong:
  assumes "map fst (db_donors self') = map fst (db_donors self)"
    and "\<forall>k. total_contributions (donor_of (db_donors self') k) =
             total_contributions (donor_of (db_donors self) k)"
  shows "sorted_keys self' = sorted_keys self"
proof -
  from assms(2) have "(\<lambda>k. total_contributions (donor_of (db_donors self') k)) =
                      (\<lambda>k. total_contributions (donor_of (db_donors self) k))"
    by (intro ext) simp
  with assms(1) show ?thesis by (simp add: sorted_keys_def dict_keys_def)
qed

lemma donors_by_level_build:
  assumes v: "views_ok self"
    and c2: "db_donors_by_level self = None"
    and r: "donors_by_level self = (by_level, self')"
  shows "map fst (db_donors self') = map fst (db_donors self)"
    and "\<forall>k. total_contributions (donor_of (db_donors self') k) =
               total_contributions (donor_of (db_donors self) k) \<and>
             d_payments (donor_of (db_donors self') k) = d_payments (donor_of (db_donors self) k)"
    and "mset (concat (map snd by_level)) = mset (map fst (db_donors self))"
    and "distinct (map fst by_level)"
    and "\<forall>(l, g) \<in> set by_level. g \<noteq> []"
    and "db_donor_level_stats self' = db_donor_level_stats self"
    and "db_total_contributions self' = db_total_contributions self"
    and "(\<forall>(k, d) \<in> set (db_donors self).
            level_loop (total_contributions d) DonorLevel_members \<noteq> None) \<Longrightarrow>
           None \<notin> set (map fst by_level)"
    and "\<forall>(k, d) \<in> set (db_donors self'). memo_ok d"
    and "db_donors_by_contribution self' = Some (sorted_keys self')"
    and "db_donors_by_level self' = Some by_level"
proof -
  let ?ks = "sorted_keys self"
  note c = donors_by_contribution_sorted [OF views_ok_view [OF v]]
  from v have memo: "\<forall>(k, d) \<in> set (db_donors self). memo_ok d"
    by (simp add: views_ok_def)
  obtain donors' where gl: "group_loop ?ks (db_donors self) [] = (donors', by_level)"
    and s': "self' = (snd (donors_by_contribution self))
               \<lparr>db_donors := donors', db_donors_by_level := Some by_level\<rparr>"
    using r c2 c(1,2)
    by (cases "donors_by_contribution self")
       (auto simp: donors_by_level_def split: prod.splits)
  have ks: "mset ?ks = mset (map fst (db_donors self))"
    by (simp add: sorted_keys_def py_sorted_reverse_mset dict_keys_def)
  then have sub: "set ?ks \<subseteq> set (map fst (db_donors self))"
    by (metis set_mset_mset subset_refl)
  from s' have st: "db_donors self' = donors'" by simp
  from group_loop_store [OF sub gl] st
  show k1: "map fst (db_donors self') = map fst (db_donors self)"
    and k2: "\<forall>k. total_contributions (donor_of (db_donors self') k) =
               total_contributions (donor_of (db_donors self) k) \<and>
             d_payments (donor_of (db_donors self') k) = d_payments (donor_of (db_donors self) k)"
    by simp_all
  from group_loop_groups [OF gl] ks
  show "mset (concat (map snd by_level)) = mset (map fst (db_donors self))"
    and "distinct (map fst by_level)" and "\<forall>(l, g) \<in> set by_level. g \<noteq> []"
    by simp_all
  have fields: "db_donor_level_stats (snd (donors_by_contribution self)) =
                  db_donor_level_stats self"
    "db_total_contributions (snd (donors_by_contribution self)) = db_total_contributions self"
    by (simp_all add: donors_by_contribution_def create_donors_by_contribution_def
        split: option.splits)
  from s' fields show "db_donor_level_stats self' = db_donor_level_stats self"
    and "db_total_contributions self' = db_total_contributions self"
    by simp_all
  from group_loop_memo [OF gl sub memo] st
  show "\<forall>(k, d) \<in> set (db_donors self'). memo_ok d" by simp
  from k1 k2 have "sorted_keys self' = sorted_keys self" by (intro sorted_keys_cong) simp_all
  with s' c(3) show "db_donors_by_contribution self' = Some (sorted_keys self')" by simp
  from s' show "db_donors_by_level self' = Some by_level" by simp
  assume cls: "\<forall>(k, d) \<in> set (db_donors self).
            level_loop (total_contributions d) DonorLevel_members \<noteq> None"
  with memo have "\<forall>(k, d) \<in> set (db_donors self). memo_ok d \<and>
           level_loop (total_contributions d) DonorLevel_members \<noteq> None"
    by blast
  from group_loop_levels [OF gl sub this] show "None \<notin> set (map fst by_level)" by simp
qed

lemma donors_by_level_cached:
  assumes "db_donors_by_level self = Some g"
  shows "donors_by_level self = (g, self)"
  using assms by (simp add: donors_by_level_def)

text \<open>
  Grouping changes the Donor objects in their memos only: the keys of \<open>_donors\<close> and the
  payments under each key stay as they are, and the views stay sound.
\<close>

lemma donors_by_level_keeps:
  assumes v: "views_ok self" and r: "donors_by_level self = (by_level, self')"
  shows "views_ok self' \<and>
      map fst (db_donors self') = map fst (db_donors self) \<and>
      (\<forall>k. d_payments (donor_of (db_donors self') k) = d_payments (donor_of (db_donors self) k)) \<and>
      (\<forall>(l, ks) \<in> set by_level. ks \<noteq> [] \<and> set ks \<subseteq> set (map fst (db_donors self')))"
proof (cases "db_donors_by_level self")
  case (Some g)
  from donors_by_level_cached [OF Some] r have e: "by_level = g" "self' = self" by simp_all
  from v Some have "\<forall>(l, ks) \<in> set g. ks \<noteq> [] \<and> set ks \<subseteq> set (map fst (db_donors self))"
    by (simp add: views_ok_def dict_keys_def)
  with v e show ?thesis by simp
next
  case None
  note b = donors_by_level_build [OF v None r]
  have sub: "\<forall>(l, ks) \<in> set by_level. set ks \<subseteq> set (map fst (db_donors self'))"
  proof (clarify)
    fix l ks x assume "(l, ks) \<in> set by_level" "x \<in> set ks"
    then have "x \<in> set (concat (map snd by_level))" by force
    then have "x \<in># mset (concat (map snd by_level))" by simp
    with b(3) b(1) show "x \<in> set (map fst (db_donors self'))" by simp
  qed
  from v have "distinct (map fst (db_donors self))" by (simp add: views_ok_def dict_keys_def)
  with b(1) have dist: "distinct (dict_keys (db_donors self'))" by (simp add: dict_keys_def)
  from dist b(9) b(10) b(11) b(5) sub have "views_ok self'"
    by (auto simp: views_ok_def dict_keys_def)
  with b(1) b(2) b(5) sub show ?thesis by auto
qed

lemma views_ok_fields:
  "views_ok (self\<lparr>db_top_donor := x\<rparr>) = views_ok self"
  "views_ok (self\<lparr>db_total_contributions := y\<rparr>) = views_ok self"
  "views_ok (self\<lparr>db_donor_level_stats := z\<rparr>) = views_ok self"
  by (simp_all add: views_ok_def sorted_keys_def)

lemma top_donor_keeps:
  "db_donors (snd (top_donor self)) = db_donors self"
  "views_ok (snd (top_donor self)) = views_ok self"
  by (simp_all add: top_donor_def Let_def views_ok_fields split: option.splits)

lemma database_total_contributions_keeps:
  "db_donors (snd (database_total_contributions self)) = db_donors self"
  "views_ok (snd (database_total_contributions self)) = views_ok self"
  by (simp_all add: database_total_contributions_def Let_def views_ok_fields
      split: option.splits)

lemma get_top_donors_keeps:
  "db_donors (snd (get_top_donors self n)) = db_donors self"
  "views_ok self \<Longrightarrow> views_ok (snd (get_top_donors self n))"
  by (auto simp: get_top_donors_def donors_by_contribution_def
      create_donors_by_contribution_def views_ok_def sorted_keys_def
      split: option.splits prod.splits)

lemma get_donors_by_level_snd:
  "snd (get_donors_by_level self lvl) = snd (donors_by_level self)"
  by (simp add: get_donors_by_level_def split: prod.splits option.splits)

lemma get_donor_level_stats_snd:
  "snd (get_donor_level_stats self lvl) = self \<or>
   snd (get_donor_level_stats self lvl) = snd (donors_by_level self) \<or>
   (\<exists>sts. snd (get_donor_level_stats self lvl) =
            (snd (donors_by_level self))\<lparr>db_donor_level_stats := Some sts\<rparr>)"
  by (auto simp: get_donor_level_stats_def get_donors_by_level_def
      split: option.splits prod.splits sum.splits by_level_result.splits)

lemma paid_transfer:
  assumes "distinct (map fst donors)" and "map fst donors' = map fst donors"
    and "\<forall>k. d_payments (donor_of donors' k) = d_payments (donor_of donors k)"
    and "\<forall>(k, d) \<in> set donors. py_eq k k \<longrightarrow> d_payments d \<noteq> []"
  shows "\<forall>(k, d) \<in> set donors'. py_eq k k \<longrightarrow> d_payments d \<noteq> []"
proof (clarify)
  fix k d assume kd: "(k, d) \<in> set donors'" and e: "py_eq k k" and n: "d_payments d = []"
  from assms(1,2) have "distinct (map fst donors')" by simp
  from donor_of_entry [OF this kd] have d: "donor_of donors' k = d" .
  from kd have "k \<in> set (map fst donors')" by force
  with assms(2) have "k \<in> set (map fst donors)" by simp
  from donor_of_mem [OF this] assms(4) e have "d_payments (donor_of donors k) \<noteq> []" by blast
  with assms(3) d n show False by metis
qed

lemma init_views_ok:
  assumes "DonorDatabase_init strptime rows = Inr (self, ws)"
  shows "views_ok self"
proof -
  note i = init_inv [OF assms]
  from i(1) have "distinct (dict_keys (db_donors self))"
    and "\<forall>(k, d) \<in> set (db_donors self). memo_ok d"
    by (auto simp: donors_inv_def memo_ok_def)
  with i(4,5) show ?thesis by (simp add: views_ok_def)
qed

text \<open>
  What holds of a database in use: the views are sound, every key of \<open>_donors\<close> is the
  user id of a row, and a Donor whose id equals itself holds a payment.
\<close>

lemma reachable_inv:
  assumes "reachable strptime rows self"
  shows "views_ok self \<and>
         set (dict_keys (db_donors self)) \<subseteq> row_user_id ` set rows \<and>
         (\<forall>(k, d) \<in> set (db_donors self). py_eq k k \<longrightarrow> d_payments d \<noteq> [])"
  using assms
proof (induction rule: reachable.induct)
  case (constructed self ws)
  note i = init_inv [OF constructed]
  from i(1) have "\<forall>(k, d) \<in> set (db_donors self). py_eq k k \<longrightarrow> d_payments d \<noteq> []"
    by (auto simp: donors_inv_def)
  with init_views_ok [OF constructed] i(7) show ?case by blast
next
  case (after_top_donor self)
  then show ?case by (simp add: top_donor_keeps)
next
  case (after_total_contributions self)
  then show ?case by (simp add: database_total_contributions_keeps)
next
  case (after_get_top_donors self n)
  then show ?case by (simp add: get_top_donors_keeps)
next
  case (after_get_donors_by_level self lvl)
  obtain g self' where r: "donors_by_level self = (g, self')"
    by (cases "donors_by_level self")
  from after_get_donors_by_level.IH have v: "views_ok self" by blast
  note k = donors_by_level_keeps [OF v r]
  from v have dist: "distinct (map fst (db_donors self))"
    by (simp add: views_ok_def dict_keys_def)
  from k have ks: "map fst (db_donors self') = map fst (db_donors self)"
    and ps: "\<forall>k. d_payments (donor_of (db_donors self') k) =
                 d_payments (donor_of (db_donors self) k)"
    by blast+
  from paid_transfer [OF dist ks ps] after_get_donors_by_level.IH
  have "\<forall>(k, d) \<in> set (db_donors self'). py_eq k k \<longrightarrow> d_payments d \<noteq> []" by blast
  with k ks after_get_donors_by_level.IH r show ?case
    by (simp add: get_donors_by_level_snd dict_keys_def)
next
  case (after_get_donor_level_stats self lvl)
  obtain g self' where r: "donors_by_level self = (g, self')"
    by (cases "donors_by_level self")
  from after_get_donor_level_stats.IH have v: "views_ok self" by blast
  note k = donors_by_level_keeps [OF v r]
  from v have dist: "distinct (map fst (db_donors self))"
    by (simp add: views_ok_def dict_keys_def)
  from k have ks: "map fst (db_donors self') = map fst (db_donors self)"
    and ps: "\<forall>k. d_payments (donor_of (db_donors self') k) =
                 d_payments (donor_of (db_donors self) k)"
    and v': "views_ok self'"
    by blast+
  from paid_transfer [OF dist ks ps] after_get_donor_level_stats.IH
  have paid': "\<forall>(k, d) \<in> set (db_donors self'). py_eq k k \<longrightarrow> d_payments d \<noteq> []" by blast
  have inv': "views_ok self' \<and>
         set (dict_keys (db_donors self')) \<subseteq> row_user_id ` set rows \<and>
         (\<forall>(k, d) \<in> set (db_donors self'). py_eq k k \<longrightarrow> d_payments d \<noteq> [])"
    using v' ks paid' after_get_donor_level_stats.IH by (simp add: dict_keys_def)
  from get_donor_level_stats_snd [of self lvl] r
  consider "snd (get_donor_level_stats self lvl) = self"
    | "snd (get_donor_level_stats self lvl) = self'"
    | sts where "snd (get_donor_level_stats self lvl) = self'\<lparr>db_donor_level_stats := Some sts\<rparr>"
    by auto
  then show ?case
  proof cases
    case 1
    with after_get_donor_level_stats.IH show ?thesis by simp
  next
    case 2
    with inv' show ?thesis by simp
  next
    case 3
    with inv' show ?thesis by (simp add: views_ok_fields)
  qed
qed

text \<open>
  So every database in use meets what the statements about the ranked view ask of it.
\<close>

lemma reachable_ranked_view:
  assumes "reachable strptime rows self"
  shows "distinct (dict_keys (db_donors self))"
    and "db_donors_by_contribution self = None \<or>
         db_donors_by_contribution self = Some (sorted_keys self)"
proof -
  from reachable_inv [OF assms] have v: "views_ok self" by blast
  then show "distinct (dict_keys (db_donors self))" by (simp add: views_ok_def)
  from views_ok_view [OF v]
  show "db_donors_by_contribution self = None \<or>
        db_donors_by_contribution self = Some (sorted_keys self)" .
qed

lemma groups_have_payments:
  assumes v: "views_ok self"
    and paid: "\<forall>(k, d) \<in> set (db_donors self). d_payments d \<noteq> []"
    and r: "donors_by_level self = (by_level, self')"
  shows "\<forall>(l, ks) \<in> set by_level.
           snd (snd (stats_inner (db_donors self') ks (0, 0, []))) \<noteq> []"
proof (clarify)
  fix l ks assume g: "(l, ks) \<in> set by_level"
    and e: "snd (snd (stats_inner (db_donors self') ks (0, 0, []))) = []"
  note k = donors_by_level_keeps [OF v r]
  from k g have ne: "ks \<noteq> []" and sub: "set ks \<subseteq> set (map fst (db_donors self'))"
    by blast+
  from k have ks: "map fst (db_donors self') = map fst (db_donors self)"
    and ps: "\<forall>k. d_payments (donor_of (db_donors self') k) =
                 d_payments (donor_of (db_donors self) k)"
    by blast+
  have "\<forall>k \<in> set ks. d_payments (donor_of (db_donors self') k) \<noteq> []"
  proof
    fix k assume "k \<in> set ks"
    with sub ks have "k \<in> set (map fst (db_donors self))" by auto
    from donor_of_mem [OF this] paid
    have "d_payments (donor_of (db_donors self) k) \<noteq> []" by blast
    with ps show "d_payments (donor_of (db_donors self') k) \<noteq> []" by simp
  qed
  from group_payments_not_Nil [OF ne this] e show False by simp
qed

lemma get_donor_level_stats_fresh:
  assumes "db_donor_level_stats self = None"
    and "donors_by_level self = (by_level, self1)"
  shows "get_donor_level_stats self lvl =
           (if None \<in> set (map fst by_level) then (Inl AttributeError, self1)
            else case stats_loop (db_donors self1) by_level [] of
                   Inl e \<Rightarrow> (Inl e, self1)
                 | Inr sts \<Rightarrow>
                     (case map_of sts lvl of
                        Some st \<Rightarrow> (Inr (StatsOne st), self1\<lparr>db_donor_level_stats := Some sts\<rparr>)
                      | None \<Rightarrow> (Inr (StatsDict sts), self1\<lparr>db_donor_level_stats := Some sts\<rparr>)))"
proof (cases "map_of by_level None")
  case None
  then have "None \<notin> set (map fst by_level)" by (simp add: map_of_eq_None_iff)
  with None assms show ?thesis
    by (simp add: get_donor_level_stats_def get_donors_by_level_def split: sum.splits option.splits)
next
  case (Some ds)
  then have "None \<in> set (map fst by_level)"
    by (metis map_of_eq_None_iff option.distinct(1) set_map)
  with Some assms show ?thesis
    by (simp add: get_donor_level_stats_def get_donors_by_level_def)
qed

lemma get_donor_level_stats_cached:
  assumes "db_donor_level_stats self = Some sts"
  shows "\<exists>res. fst (get_donor_level_stats self lvl) = Inr res"
  using assms by (simp add: get_donor_level_stats_def split: option.splits)

text \<open>
  C10, as stated, fails: a row whose user id is NaN creates a Donor that rejects the
  payment of that very row, because \<open>self._id == user_id\<close> is false for NaN against
  itself. The database built from a payment of 600 for donor 1 and a payment of 50 under
  a NaN id holds a second donor with no payment, alone at level zero, and
  \<open>get_donor_level_stats\<close> raises \<open>ValueError\<close> on its empty array.
\<close>

theorem constructed_donors_counterexample:
  "\<not> isl (DonorDatabase_init no_strptime nan_rows) \<and>
   map (num_payments \<circ> snd) (db_donors nan_db) = [1, 0] \<and>
   fst (get_donor_level_stats nan_db None) = Inl ValueError"
  by (simp add: nan_db_def nan_rows_def DonorDatabase_init_def ingest_row_def Donor_init_def
      add_payment_def post_init_def convert_date_def strip_opt_def parse_membership_def
      str_strip_def isspace_def dict_keys_def dict_values_def example_row_def
      no_strptime_def string_to_datetime_def num_payments_def total_contributions_def
      get_donor_level_stats_def get_donors_by_level_def donors_by_level_def
      donors_by_contribution_def sorted_keys_def py_sorted_def donor_of_def
      create_donors_by_contribution_def level_def DonorLevel_members_def
      level_stats_def np_max_def np_min_def)

text \<open>
  C10, amended: when every row carries an integer user id, then in the database that the
  constructor returns, and in every state that the queries bring it to, every donor holds
  at least one payment; every group that \<open>get_donors_by_level\<close> holds or forms has a
  non-empty list of payment amounts; and \<open>get_donor_level_stats\<close> never raises the
  \<open>ValueError\<close> of a reduction over an empty array.
\<close>

theorem constructed_donors_have_payments:
  assumes "reachable strptime rows self"
    and "\<forall>row \<in> set rows. \<exists>i. row_user_id row = IntId i"
  shows "(\<forall>(k, d) \<in> set (db_donors self). 1 \<le> num_payments d) \<and>
         (\<forall>by_level self'. donors_by_level self = (by_level, self') \<longrightarrow>
            (\<forall>(l, ks) \<in> set by_level.
               snd (snd (stats_inner (db_donors self') ks (0, 0, []))) \<noteq> [])) \<and>
         (\<forall>lvl. fst (get_donor_level_stats self lvl) \<noteq> Inl ValueError)"
proof -
  from reachable_inv [OF assms(1)] have v: "views_ok self"
    and keys: "set (dict_keys (db_donors self)) \<subseteq> row_user_id ` set rows"
    and p: "\<forall>(k, d) \<in> set (db_donors self). py_eq k k \<longrightarrow> d_payments d \<noteq> []"
    by blast+
  have paid: "\<forall>(k, d) \<in> set (db_donors self). d_payments d \<noteq> []"
  proof (clarify)
    fix k d assume kd: "(k, d) \<in> set (db_donors self)" and e: "d_payments d = []"
    from kd have "k \<in> set (dict_keys (db_donors self))" by (force simp: dict_keys_def)
    with keys assms(2) obtain i where "k = IntId i" by blast
    then have "py_eq k k" by simp
    with p kd e show False by blast
  qed
  have p1: "\<forall>(k, d) \<in> set (db_donors self). 1 \<le> num_payments d"
  proof (clarify)
    fix k d assume "(k, d) \<in> set (db_donors self)"
    with paid have "d_payments d \<noteq> []" by blast
    then show "1 \<le> num_payments d" by (cases "d_payments d") (simp_all add: num_payments_def)
  qed
  have p2: "\<forall>by_level self'. donors_by_level self = (by_level, self') \<longrightarrow>
            (\<forall>(l, ks) \<in> set by_level.
               snd (snd (stats_inner (db_donors self') ks (0, 0, []))) \<noteq> [])"
    using groups_have_payments [OF v paid] by blast
  have p3: "\<forall>lvl. fst (get_donor_level_stats self lvl) \<noteq> Inl ValueError"
  proof
    fix lvl
    obtain by_level self1 where r: "donors_by_level self = (by_level, self1)"
      by (cases "donors_by_level self")
    show "fst (get_donor_level_stats self lvl) \<noteq> Inl ValueError"
    proof (cases "db_donor_level_stats self")
      case (Some sts)
      from get_donor_level_stats_cached [OF Some, of lvl] show ?thesis by auto
    next
      case None
      show ?thesis
      proof (cases "stats_loop (db_donors self1) by_level []")
        case (Inl e)
        from stats_loop_error [OF Inl] groups_have_payments [OF v paid r]
        show ?thesis by blast
      next
        case (Inr sts)
        then show ?thesis
          by (simp add: get_donor_level_stats_fresh [OF None r] split: option.splits)
      qed
    qed
  qed
  from p1 p2 p3 show ?thesis by blast
qed

text \<open>
  The amended C10 at the example database after a call of \<open>get_donors_by_level\<close>.
\<close>

theorem constructed_donors_have_payments_witness:
  "reachable no_strptime example_rows (snd (get_donors_by_level example_db None)) \<and>
   map row_user_id example_rows = [IntId 1, IntId 1, IntId 1, IntId 2, IntId 3] \<and>
   fst (get_donor_level_stats (snd (get_donors_by_level example_db None)) None)
     \<noteq> Inl ValueError"
proof -
  have h1: "reachable no_strptime example_rows (snd (get_donors_by_level example_db None))"
    by (rule reachable.after_get_donors_by_level,
        rule reachable.constructed [OF example_db_constructed])
  have ids: "map row_user_id example_rows = [IntId 1, IntId 1, IntId 1, IntId 2, IntId 3]"
    by (simp add: example_rows_def example_row_def)
  have h2: "\<forall>row \<in> set example_rows. \<exists>i. row_user_id row = IntId i"
  proof
    fix row assume "row \<in> set example_rows"
    then have "row_user_id row \<in> set (map row_user_id example_rows)" by simp
    then have "row_user_id row \<in> set [IntId 1, IntId 1, IntId 1, IntId 2, IntId 3]"
      by (simp only: ids)
    then show "\<exists>i. row_user_id row = IntId i" by auto
  qed
  from constructed_donors_have_payments [OF h1 h2]
  have "fst (get_donor_level_stats (snd (get_donors_by_level example_db None)) None)
          \<noteq> Inl ValueError"
    by blast
  with h1 ids show ?thesis by blast
qed

section \<open>The totals of the levels\<close>

text \<open>
  C7 at its failing input: for the registry built from one payment of 300000 the
  statistics are not returned at all. The donor has no level, the groups have the key
  \<open>None\<close>, \<open>get_donors_by_level()\<close>, called without a level, returns the list stored
  under that key and not the dictionary, and \<open>get_donor_level_stats\<close> raises
  \<open>AttributeError\<close> on it, while the total of the registry is 300000.
\<close>

theorem level_totals_counterexample:
  "\<not> isl (DonorDatabase_init no_strptime [example_row (IntId 1) 10 ''Payment'' 300000]) \<and>
   fst (database_total_contributions
          (fst (projr (DonorDatabase_init no_strptime [example_row (IntId 1) 10 ''Payment'' 300000]))))
     = 300000 \<and>
   fst (get_donor_level_stats
          (fst (projr (DonorDatabase_init no_strptime [example_row (IntId 1) 10 ''Payment'' 300000])))
          None) = Inl AttributeError"
  by (simp add: DonorDatabase_init_def ingest_row_def Donor_init_def add_payment_def
      post_init_def convert_date_def strip_opt_def parse_membership_def str_strip_def
      isspace_def dict_keys_def dict_values_def example_row_def no_strptime_def
      string_to_datetime_def database_total_contributions_def total_contributions_def
      get_donor_level_stats_def get_donors_by_level_def donors_by_level_def
      donors_by_contribution_def sorted_keys_def py_sorted_def donor_of_def
      create_donors_by_contribution_def level_def DonorLevel_members_def)

text \<open>
  Where every donor has a level the grouping partitions the donors, and the totals of the
  levels add up to the total of the registry. The amounts are exact reals here: the sums
  are equal, where the floating-point sums of the program, taken in two different orders,
  differ by their rounding.
\<close>

lemma level_totals_exact:
  assumes "DonorDatabase_init strptime rows = Inr (self, ws)"
    and "\<forall>row \<in> set rows. \<exists>i. row_user_id row = IntId i"
    and "\<forall>(k, d) \<in> set (db_donors self). \<bar>total_contributions d\<bar> < 250000"
  shows "\<exists>sts self'. get_donor_level_stats self None = (Inr (StatsDict sts), self') \<and>
           sum_list (map (st_total \<circ> snd) sts) = fst (database_total_contributions self) \<and>
           sum_list (map (st_total \<circ> snd) sts) = fst (database_total_contributions self')"
proof -
  note i = init_inv [OF assms(1)]
  note v = init_views_ok [OF assms(1)]
  obtain by_level self1 where r: "donors_by_level self = (by_level, self1)"
    by (cases "donors_by_level self")
  note f = donors_by_level_build [OF v i(5) r]
  have cls: "\<forall>(k, d) \<in> set (db_donors self).
            level_loop (total_contributions d) DonorLevel_members \<noteq> None"
  proof -
    have "level_loop (total_contributions d) DonorLevel_members \<noteq> None"
      if "(k, d) \<in> set (db_donors self)" for k d
    proof -
      from that assms(3) have "\<bar>total_contributions d\<bar> < 250000" by blast
      from level_loop_in_range [OF this] show ?thesis by auto
    qed
    then show ?thesis by blast
  qed
  from f(8) [OF cls] have none: "None \<notin> set (map fst by_level)" .
  from i(1) have dist: "distinct (map fst (db_donors self))"
    by (simp add: donors_inv_def dict_keys_def)
  have paid: "\<forall>(k, d) \<in> set (db_donors self). d_payments d \<noteq> []"
  proof (clarify)
    fix k d assume kd: "(k, d) \<in> set (db_donors self)" and e: "d_payments d = []"
    from kd have "k \<in> set (dict_keys (db_donors self))" by (force simp: dict_keys_def)
    with i(7) assms(2) obtain j where "k = IntId j" by blast
    then have "py_eq k k" by simp
    with i(1) kd e show False by (auto simp: donors_inv_def)
  qed
  obtain sts where sts: "stats_loop (db_donors self1) by_level [] = Inr sts"
  proof (cases "stats_loop (db_donors self1) by_level []")
    case (Inl e)
    from stats_loop_error [OF Inl] groups_have_payments [OF v paid r]
    show ?thesis by blast
  next
    case (Inr sts)
    with that show ?thesis .
  qed
  from stats_loop_total [OF sts f(4)]
  have tot: "sum_list (map (st_total \<circ> snd) sts) =
        sum_list (map (\<lambda>k. total_contributions (donor_of (db_donors self1) k))
                    (concat (map snd by_level)))"
    and keys: "map fst sts = map fst by_level"
    by simp_all
  from keys none have "None \<notin> set (map fst sts)" by simp
  then have "map_of sts None = None" by (simp add: map_of_eq_None_iff)
  with none sts have res: "get_donor_level_stats self None =
      (Inr (StatsDict sts), self1\<lparr>db_donor_level_stats := Some sts\<rparr>)"
    by (simp add: get_donor_level_stats_fresh [OF i(6) r])
  have s1: "sum_list (map (\<lambda>k. total_contributions (donor_of (db_donors self1) k))
                    (concat (map snd by_level))) =
        sum_list (map (\<lambda>k. total_contributions (donor_of (db_donors self1) k))
                    (map fst (db_donors self)))"
    by (rule sum_list_mset_cong [OF f(3)])
  have s2: "sum_list (map (\<lambda>k. total_contributions (donor_of (db_donors self1) k))
                    (map fst (db_donors self))) =
            sum_list (map (\<lambda>k. total_contributions (donor_of (db_donors self) k))
                    (map fst (db_donors self)))"
    using f(2) by simp
  have t0: "fst (database_total_contributions self) =
            sum_list (map total_contributions (map snd (db_donors self)))"
    using i(3) by (simp add: database_total_contributions_def foldl_total_sum_list
        dict_values_def Let_def)
  have dist1: "distinct (map fst (db_donors self1))" using dist f(1) by simp
  have t1: "fst (database_total_contributions (self1\<lparr>db_donor_level_stats := Some sts\<rparr>)) =
            sum_list (map total_contributions (map snd (db_donors self1)))"
    using i(3) f(7) by (simp add: database_total_contributions_def foldl_total_sum_list
        dict_values_def Let_def)
  have e0: "sum_list (map (st_total \<circ> snd) sts) = fst (database_total_contributions self)"
    using tot s1 s2 sum_over_keys [OF dist] t0 by simp
  have "sum_list (map (\<lambda>k. total_contributions (donor_of (db_donors self1) k))
                    (map fst (db_donors self))) =
        sum_list (map total_contributions (map snd (db_donors self1)))"
    using sum_over_keys [OF dist1] f(1) by simp
  with tot s1 t1 have e1: "sum_list (map (st_total \<circ> snd) sts) =
        fst (database_total_contributions (self1\<lparr>db_donor_level_stats := Some sts\<rparr>))"
    by simp
  from res e0 e1 show ?thesis by blast
qed

section \<open>The top donor\<close>

lemma top_donor_loop_none:
  "\<forall>(k, d) \<in> set kvs. total_contributions d \<le> m \<Longrightarrow> top_donor_loop kvs m top_k = top_k"
  by (induction kvs arbitrary: m top_k) auto

lemma top_donor_loop_max:
  "\<exists>(k, d) \<in> set kvs. m < total_contributions d \<Longrightarrow>
     \<exists>i < length kvs. top_donor_loop kvs m top_k = Some (fst (kvs ! i)) \<and>
        m < total_contributions (snd (kvs ! i)) \<and>
        (\<forall>j < length kvs. total_contributions (snd (kvs ! j))
                              \<le> total_contributions (snd (kvs ! i))) \<and>
        (\<forall>j < i. total_contributions (snd (kvs ! j)) < total_contributions (snd (kvs ! i)))"
proof (induction kvs arbitrary: m top_k)
  case Nil
  then show ?case by simp
next
  case (Cons kv kvs)
  obtain k d where kv: "kv = (k, d)" by (cases kv)
  let ?t = "total_contributions d"
  show ?case
  proof (cases "m < ?t")
    case True
    show ?thesis
    proof (cases "\<exists>(k', d') \<in> set kvs. ?t < total_contributions d'")
      case ex: True
      from Cons.IH [OF ex, of "Some k"] obtain i where i: "i < length kvs"
        "top_donor_loop kvs ?t (Some k) = Some (fst (kvs ! i))"
        "?t < total_contributions (snd (kvs ! i))"
        "\<forall>j < length kvs. total_contributions (snd (kvs ! j))
                              \<le> total_contributions (snd (kvs ! i))"
        "\<forall>j < i. total_contributions (snd (kvs ! j)) < total_contributions (snd (kvs ! i))"
        by blast
      have a: "top_donor_loop (kv # kvs) m top_k = Some (fst ((kv # kvs) ! Suc i))"
        using True kv i(2) by simp
      have b: "m < total_contributions (snd ((kv # kvs) ! Suc i))"
        using True i(3) by simp
      have c: "\<forall>j < length (kv # kvs). total_contributions (snd ((kv # kvs) ! j))
                              \<le> total_contributions (snd ((kv # kvs) ! Suc i))"
        using i(3,4) kv by (auto simp: nth_Cons split: nat.splits)
      have e: "\<forall>j < Suc i. total_contributions (snd ((kv # kvs) ! j))
                              < total_contributions (snd ((kv # kvs) ! Suc i))"
        using i(3,5) kv by (auto simp: nth_Cons split: nat.splits)
      from i(1) a b c e show ?thesis by (intro exI [of _ "Suc i"]) simp
    next
      case nex: False
      then have le: "\<forall>(k', d') \<in> set kvs. total_contributions d' \<le> ?t" by auto
      from top_donor_loop_none [OF le] True kv
      have a: "top_donor_loop (kv # kvs) m top_k = Some (fst ((kv # kvs) ! 0))" by simp
      have c: "\<forall>j < length (kv # kvs). total_contributions (snd ((kv # kvs) ! j))
                              \<le> total_contributions (snd ((kv # kvs) ! 0))"
      proof (intro allI impI)
        fix j assume j: "j < length (kv # kvs)"
        show "total_contributions (snd ((kv # kvs) ! j)) \<le> total_contributions (snd ((kv # kvs) ! 0))"
        proof (cases j)
          case 0
          then show ?thesis by simp
        next
          case (Suc j')
          with j have "kvs ! j' \<in> set kvs" by simp
          with le have "total_contributions (snd (kvs ! j')) \<le> ?t"
            by (metis case_prodD prod.collapse)
          with Suc kv show ?thesis by simp
        qed
      qed
      from a c True kv show ?thesis by (intro exI [of _ 0]) simp
    qed
  next
    case False
    with Cons.prems kv have ex: "\<exists>(k', d') \<in> set kvs. m < total_contributions d'" by auto
    from Cons.IH [OF ex, of top_k] obtain i where i: "i < length kvs"
        "top_donor_loop kvs m top_k = Some (fst (kvs ! i))"
        "m < total_contributions (snd (kvs ! i))"
        "\<forall>j < length kvs. total_contributions (snd (kvs ! j))
                              \<le> total_contributions (snd (kvs ! i))"
        "\<forall>j < i. total_contributions (snd (kvs ! j)) < total_contributions (snd (kvs ! i))"
        by blast
    have a: "top_donor_loop (kv # kvs) m top_k = Some (fst ((kv # kvs) ! Suc i))"
      using False kv i(2) by simp
    have b: "m < total_contributions (snd ((kv # kvs) ! Suc i))"
      using i(3) by simp
    have c: "\<forall>j < length (kv # kvs). total_contributions (snd ((kv # kvs) ! j))
                              \<le> total_contributions (snd ((kv # kvs) ! Suc i))"
      using False i(3,4) kv by (auto simp: nth_Cons split: nat.splits)
    have e: "\<forall>j < Suc i. total_contributions (snd ((kv # kvs) ! j))
                              < total_contributions (snd ((kv # kvs) ! Suc i))"
      using False i(3,5) kv by (auto simp: nth_Cons split: nat.splits)
    from i(1) a b c e show ?thesis by (intro exI [of _ "Suc i"]) simp
  qed
qed

text \<open>
  What \<open>top_donor\<close> does on its first call: when some donor has a positive total it
  returns the first donor with the largest total, and when none has it returns \<open>None\<close>.
\<close>

lemma top_donor_first_max:
  assumes "db_top_donor self = None" and "distinct (dict_keys (db_donors self))"
    and "\<exists>(k, d) \<in> set (db_donors self). 0 < total_contributions d"
  shows "\<exists>i < length (db_donors self).
           fst (top_donor self) = Some (snd (db_donors self ! i)) \<and>
           (\<forall>j < length (db_donors self).
              total_contributions (snd (db_donors self ! j))
                \<le> total_contributions (snd (db_donors self ! i))) \<and>
           (\<forall>j < i. total_contributions (snd (db_donors self ! j))
                       < total_contributions (snd (db_donors self ! i)))"
proof -
  let ?kvs = "db_donors self"
  from top_donor_loop_max [OF assms(3), of None] obtain i where i: "i < length ?kvs"
    "top_donor_loop ?kvs 0 None = Some (fst (?kvs ! i))"
    "\<forall>j < length ?kvs. total_contributions (snd (?kvs ! j))
                              \<le> total_contributions (snd (?kvs ! i))"
    "\<forall>j < i. total_contributions (snd (?kvs ! j)) < total_contributions (snd (?kvs ! i))"
    by blast
  from assms(2) have d: "distinct (map fst ?kvs)" by (simp add: dict_keys_def)
  from i(1) have "(fst (?kvs ! i), snd (?kvs ! i)) \<in> set ?kvs" by simp
  from donor_of_entry [OF d this] have "donor_of ?kvs (fst (?kvs ! i)) = snd (?kvs ! i)" .
  with assms(1) i(2) have "fst (top_donor self) = Some (snd (?kvs ! i))"
    by (simp add: top_donor_def Let_def)
  with i(1,3,4) show ?thesis by blast
qed

lemma top_donor_nonpositive:
  assumes "db_top_donor self = None"
    and "\<forall>(k, d) \<in> set (db_donors self). total_contributions d \<le> 0"
  shows "fst (top_donor self) = None"
  using assms(1) top_donor_loop_none [OF assms(2), of None]
  by (simp add: top_donor_def Let_def)

text \<open>
  C4 at its failing input: the registry built from a payment of 100 and a refund of 100
  holds one donor, whose total is 0, and \<open>top_donor\<close> returns \<open>None\<close>: the scan
  starts from a maximum of 0.0 and keeps a donor only when the total is greater.
\<close>

theorem top_donor_nonpositive_none:
  "\<not> isl (DonorDatabase_init no_strptime
            [example_row (IntId 1) 10 ''Payment'' 100, example_row (IntId 1) 11 ''Refund'' (- 100)]) \<and>
   map (total_contributions \<circ> snd)
     (db_donors (fst (projr (DonorDatabase_init no_strptime
        [example_row (IntId 1) 10 ''Payment'' 100, example_row (IntId 1) 11 ''Refund'' (- 100)])))) = [0] \<and>
   fst (top_donor (fst (projr (DonorDatabase_init no_strptime
        [example_row (IntId 1) 10 ''Payment'' 100, example_row (IntId 1) 11 ''Refund'' (- 100)])))) = None"
  by (simp add: DonorDatabase_init_def ingest_row_def Donor_init_def add_payment_def
      post_init_def convert_date_def strip_opt_def parse_membership_def str_strip_def
      isspace_def dict_keys_def dict_values_def example_row_def no_strptime_def
      string_to_datetime_def total_contributions_def top_donor_def)

section \<open>The largest payment and donation\<close>

text \<open>
  What the scan of \<open>largest_payment\<close> and \<open>largest_donation\<close> does: when some payment
  of the category has an amount above the starting maximum it returns the first payment
  of the category with the largest amount, and otherwise what it started with.
\<close>

lemma largest_loop_none:
  "\<forall>p \<in> set ps. contribution_type p = ctype \<longrightarrow> amount p \<le> m \<Longrightarrow>
     largest_loop ctype ps m best = best"
  by (induction ps arbitrary: m best) auto

lemma largest_loop_max:
  "\<exists>p \<in> set ps. contribution_type p = ctype \<and> m < amount p \<Longrightarrow>
     \<exists>i < length ps. largest_loop ctype ps m best = Some (ps ! i) \<and>
        contribution_type (ps ! i) = ctype \<and> m < amount (ps ! i) \<and>
        (\<forall>j < length ps. contribution_type (ps ! j) = ctype \<longrightarrow>
                           amount (ps ! j) \<le> amount (ps ! i)) \<and>
        (\<forall>j < i. contribution_type (ps ! j) = ctype \<longrightarrow> amount (ps ! j) < amount (ps ! i))"
proof (induction ps arbitrary: m best)
  case Nil
  then show ?case by simp
next
  case (Cons p ps)
  show ?case
  proof (cases "contribution_type p = ctype \<and> m < amount p")
    case True
    show ?thesis
    proof (cases "\<exists>q \<in> set ps. contribution_type q = ctype \<and> amount p < amount q")
      case ex: True
      from Cons.IH [OF ex, of "Some p"] obtain i where i: "i < length ps"
        "largest_loop ctype ps (amount p) (Some p) = Some (ps ! i)"
        "contribution_type (ps ! i) = ctype" "amount p < amount (ps ! i)"
        "\<forall>j < length ps. contribution_type (ps ! j) = ctype \<longrightarrow>
                           amount (ps ! j) \<le> amount (ps ! i)"
        "\<forall>j < i. contribution_type (ps ! j) = ctype \<longrightarrow> amount (ps ! j) < amount (ps ! i)"
        by blast
      have a: "largest_loop ctype (p # ps) m best = Some ((p # ps) ! Suc i)"
        using True i(2) by simp
      have b: "m < amount ((p # ps) ! Suc i)" using True i(4) by simp
      have c: "\<forall>j < length (p # ps). contribution_type ((p # ps) ! j) = ctype \<longrightarrow>
                           amount ((p # ps) ! j) \<le> amount ((p # ps) ! Suc i)"
        using i(4,5) by (auto simp: nth_Cons split: nat.splits)
      have e: "\<forall>j < Suc i. contribution_type ((p # ps) ! j) = ctype \<longrightarrow>
                           amount ((p # ps) ! j) < amount ((p # ps) ! Suc i)"
        using i(4,6) by (auto simp: nth_Cons split: nat.splits)
      from i(1,3) a b c e show ?thesis by (intro exI [of _ "Suc i"]) simp
    next
      case nex: False
      then have le: "\<forall>q \<in> set ps. contribution_type q = ctype \<longrightarrow> amount q \<le> amount p"
        by auto
      from largest_loop_none [OF le] True
      have a: "largest_loop ctype (p # ps) m best = Some ((p # ps) ! 0)" by simp
      have c: "\<forall>j < length (p # ps). contribution_type ((p # ps) ! j) = ctype \<longrightarrow>
                           amount ((p # ps) ! j) \<le> amount ((p # ps) ! 0)"
        using le by (auto simp: nth_Cons split: nat.splits)
      from a c True show ?thesis by (intro exI [of _ 0]) simp
    qed
  next
    case False
    with Cons.prems have ex: "\<exists>q \<in> set ps. contribution_type q = ctype \<and> m < amount q"
      by auto
    from Cons.IH [OF ex, of best] obtain i where i: "i < length ps"
        "largest_loop ctype ps m best = Some (ps ! i)"
        "contribution_type (ps ! i) = ctype" "m < amount (ps ! i)"
        "\<forall>j < length ps. contribution_type (ps ! j) = ctype \<longrightarrow>
                           amount (ps ! j) \<le> amount (ps ! i)"
        "\<forall>j < i. contribution_type (ps ! j) = ctype \<longrightarrow> amount (ps ! j) < amount (ps ! i)"
        by blast
    have a: "largest_loop ctype (p # ps) m best = Some ((p # ps) ! Suc i)"
      using False i(2) by auto
    have c: "\<forall>j < length (p # ps). contribution_type ((p # ps) ! j) = ctype \<longrightarrow>
                           amount ((p # ps) ! j) \<le> amount ((p # ps) ! Suc i)"
      using False i(4,5) by (auto simp: nth_Cons split: nat.splits)
    have e: "\<forall>j < Suc i. contribution_type ((p # ps) ! j) = ctype \<longrightarrow>
                           amount ((p # ps) ! j) < amount ((p # ps) ! Suc i)"
      using False i(4,6) by (auto simp: nth_Cons split: nat.splits)
    from i(1,3,4) a c e show ?thesis by (intro exI [of _ "Suc i"]) simp
  qed
qed

text \<open>
  C8 at its failing input: a donor with one payment and one donation, each of amount 0,
  has no largest payment and no largest donation, although a transaction of each category
  exists.
\<close>

theorem largest_nonpositive_none:
  "map (\<lambda>p. (contribution_type p, amount p))
     (dict_values (d_payments (fst (snd (add_payment no_strptime
        (fst (snd (add_payment no_strptime example_donor 10 (IntId 1) ''Payment'' DateNone DateNone
                     [] [] 0 0)))
        11 (IntId 1) ''Donation'' DateNone DateNone [] [] 0 0))))) =
     [(''Payment'', 0), (''Donation'', 0)] \<and>
   largest_payment (fst (snd (add_payment no_strptime
        (fst (snd (add_payment no_strptime example_donor 10 (IntId 1) ''Payment'' DateNone DateNone
                     [] [] 0 0)))
        11 (IntId 1) ''Donation'' DateNone DateNone [] [] 0 0))) = None \<and>
   largest_donation (fst (snd (add_payment no_strptime
        (fst (snd (add_payment no_strptime example_donor 10 (IntId 1) ''Payment'' DateNone DateNone
                     [] [] 0 0)))
        11 (IntId 1) ''Donation'' DateNone DateNone [] [] 0 0))) = None"
  by (simp add: donor_eval largest_payment_def largest_donation_def)

end
